theory Spec2Isabelle
  imports Main "HOL-Library.Char_ord" "HOL-Library.List_Lexorder" "HOL-Library.Multiset"
begin

section \<open>Nodes of the search tree\<close>

text \<open>
  Errors a state (the collaborator of the search engine) can raise. The engine itself
  raises nothing; whatever a state raises goes through it unchanged.
\<close>

datatype erro = IndexError | ValueError | TypeError

text \<open>
  Class \<open>Nodo\<close>: a state, the parent node (\<open>None\<close> for the root) and the label of the
  action that produced the state. Nodes are never mutated after construction, so the
  parent reference is the parent node itself.
\<close>

datatype 's nodo = Nodo (estado: 's) (pai: "'s nodo option") (acao: string)

text \<open>\<open>Nodo.__init__(estado, pai=None, acao=None)\<close>: a missing action becomes \<open>"Z"\<close>.\<close>

definition Nodo_init :: "'s \<Rightarrow> 's nodo option \<Rightarrow> string option \<Rightarrow> 's nodo" where
  "Nodo_init e p a = Nodo e p (case a of None \<Rightarrow> ''Z'' | Some l \<Rightarrow> l)"

text \<open>
  \<open>Nodo.caminho_\<close>: the loop \<open>while nodo: caminho.append(nodo); nodo = nodo.pai\<close>
  (a \<open>Nodo\<close> is always truthy, \<open>None\<close> is not), then \<open>reversed(caminho)\<close>.
\<close>

fun caminho_laco :: "'s nodo option \<Rightarrow> 's nodo list \<Rightarrow> 's nodo list" where
  "caminho_laco None caminho = caminho"
| "caminho_laco (Some (Nodo e p a)) caminho = caminho_laco p (caminho @ [Nodo e p a])"

definition caminho :: "'s nodo \<Rightarrow> 's nodo list" where
  "caminho n = rev (caminho_laco (Some n) [])"

text \<open>The chain of a node: the node, its parent, its grandparent, up to the root.\<close>

fun cadeia :: "'s nodo \<Rightarrow> 's nodo list" where
  "cadeia (Nodo e None a) = [Nodo e None a]"
| "cadeia (Nodo e (Some p) a) = Nodo e (Some p) a # cadeia p"

text \<open>\<open>elo xs\<close>: every element of \<open>xs\<close> after the first has its predecessor as parent.\<close>

fun elo :: "'s nodo list \<Rightarrow> bool" where
  "elo [] = True"
| "elo [n] = True"
| "elo (m # n # ns) = (pai n = Some m \<and> elo (n # ns))"

section \<open>The puzzle state: class QuebraCabeca\<close>

text \<open>
  The board (\<open>self.tabela\<close>) is a list of rows, each a list of integers; \<open>9\<close> is the
  blank. \<open>self.tamanho\<close> is the constant 3. The functions below work on the value of the
  board; the section on the object store models the list objects themselves.
\<close>

type_synonym tabela = "int list list"

definition tamanho :: int where
  "tamanho = 3"

text \<open>
  Python indexing \<open>xs[i]\<close> on a list of length \<open>n\<close>: a negative index counts from the
  end, an index outside \<open>-n \<le> i < n\<close> raises IndexError.
\<close>

definition indice :: "nat \<Rightarrow> int \<Rightarrow> erro + nat" where
  "indice n i =
     (if 0 \<le> i \<and> i < int n then Inr (nat i)
      else if - int n \<le> i \<and> i < 0 then Inr (nat (int n + i))
      else Inl IndexError)"

definition item :: "'a list \<Rightarrow> int \<Rightarrow> erro + 'a" where
  "item xs i = (case indice (length xs) i of Inl e \<Rightarrow> Inl e | Inr k \<Rightarrow> Inr (xs ! k))"

text \<open>The assignment \<open>xs[i] = v\<close>.\<close>

definition atribuir :: "'a list \<Rightarrow> int \<Rightarrow> 'a \<Rightarrow> erro + 'a list" where
  "atribuir xs i v = (case indice (length xs) i of Inl e \<Rightarrow> Inl e | Inr k \<Rightarrow> Inr (xs[k := v]))"

text \<open>
  \<open>QuebraCabeca.objetivo\<close>. \<open>np.array(self.tabela)\<close> is a two-dimensional array when the
  rows have one common length; on an empty or ragged board numpy raises ValueError (at
  the construction or at \<open>trace\<close>). \<open>estado.trace()\<close> adds the main diagonal,
  \<open>estado[::-1].trace()\<close> the main diagonal of the rows in reverse order,
  \<open>sum(axis=0)\<close> gives the column sums and \<open>sum(axis=1)\<close> the row sums; \<open>np.unique\<close>
  gives the sorted distinct values. Cells are mathematical integers here: numpy's 64-bit
  sums agree with them for tile values.
\<close>

definition retangular :: "tabela \<Rightarrow> bool" where
  "retangular t = (t \<noteq> [] \<and> (\<forall>lin \<in> set t. length lin = length (hd t)))"

definition trace :: "tabela \<Rightarrow> int" where
  "trace t = sum_list (map (\<lambda>k. t ! k ! k) [0..<min (length t) (length (hd t))])"

definition sum_axis0 :: "tabela \<Rightarrow> int list" where
  "sum_axis0 t = map (\<lambda>j. sum_list (map (\<lambda>lin. lin ! j) t)) [0..<length (hd t)]"

definition sum_axis1 :: "tabela \<Rightarrow> int list" where
  "sum_axis1 t = map sum_list t"

definition unique :: "int list \<Rightarrow> int list" where
  "unique xs = sort (remdups xs)"

definition objetivo :: "tabela \<Rightarrow> erro + bool" where
  "objetivo t =
     (if \<not> retangular t then Inl ValueError
      else
        let diagonais = replicate (nat tamanho) (trace t) @ replicate (nat tamanho) (trace (rev t));
            somas = sum_axis0 t @ sum_axis1 t @ diagonais;
            x = unique somas
        in Inr (length x = 1 \<and> x ! 0 = 15))"

text \<open>
  \<open>QuebraCabeca.acoes\<close>. A move is the pair (origem, destino) that the closure made by
  \<open>definir_movimento\<close> holds; the list pairs each move with its label. The dictionary
  \<open>direcoes\<close> is read in insertion order, and \<open>self.tabela[l][c]\<close> is read only when
  the four range tests before it hold.
\<close>

type_synonym movimento = "(int \<times> int) \<times> (int \<times> int)"

definition direcoes :: "int \<Rightarrow> int \<Rightarrow> (string \<times> int \<times> int) list" where
  "direcoes i j =
     [(''1 Cima'', (i + 1, j)), (''2 Baixo'', (i - 1, j)),
      (''3 Esquerda'', (i, j + 1)), (''4 Direita'', (i, j - 1))]"

fun acoes_direcoes ::
  "tabela \<Rightarrow> int \<times> int \<Rightarrow> (string \<times> int \<times> int) list \<Rightarrow> (movimento \<times> string) list
   \<Rightarrow> erro + (movimento \<times> string) list" where
  "acoes_direcoes t ij [] conj_movimentos = Inr conj_movimentos"
| "acoes_direcoes t ij ((rotulo, (l, c)) # ds) conj_movimentos =
     (if l \<ge> 0 \<and> c \<ge> 0 \<and> l < tamanho \<and> c < tamanho then
        (case item t l of
           Inl e \<Rightarrow> Inl e
         | Inr lin \<Rightarrow>
             (case item lin c of
                Inl e \<Rightarrow> Inl e
              | Inr v \<Rightarrow>
                  if v = 9
                  then acoes_direcoes t ij ds (conj_movimentos @ [((ij, (l, c)), rotulo)])
                  else acoes_direcoes t ij ds conj_movimentos))
      else acoes_direcoes t ij ds conj_movimentos)"

fun acoes_celulas ::
  "tabela \<Rightarrow> (int \<times> int) list \<Rightarrow> (movimento \<times> string) list
   \<Rightarrow> erro + (movimento \<times> string) list" where
  "acoes_celulas t [] conj_movimentos = Inr conj_movimentos"
| "acoes_celulas t ((i, j) # ijs) conj_movimentos =
     (case acoes_direcoes t (i, j) (direcoes i j) conj_movimentos of
        Inl e \<Rightarrow> Inl e
      | Inr conj' \<Rightarrow> acoes_celulas t ijs conj')"

definition acoes :: "tabela \<Rightarrow> erro + (movimento \<times> string) list" where
  "acoes t = acoes_celulas t (List.product [0, 1, 2] [0, 1, 2]) []"

text \<open>\<open>QuebraCabeca.copiar\<close>: a new list of new rows with the same cells.\<close>

definition copiar :: "tabela \<Rightarrow> tabela" where
  "copiar t = map (\<lambda>lin. map (\<lambda>x. x) lin) t"

text \<open>
  \<open>QuebraCabeca.mover\<close>. The right-hand side \<open>copia.tabela[r][c], copia.tabela[i][j]\<close>
  is read first, then \<open>copia.tabela[i][j]\<close> and \<open>copia.tabela[r][c]\<close> are assigned in
  this order. The rows of the copy are distinct list objects, so an assignment to a cell
  changes one row of the copy.
\<close>

definition atribuir_celula :: "tabela \<Rightarrow> int \<Rightarrow> int \<Rightarrow> int \<Rightarrow> erro + tabela" where
  "atribuir_celula t l c v =
     (case indice (length t) l of
        Inl e \<Rightarrow> Inl e
      | Inr k \<Rightarrow> (case atribuir (t ! k) c v of Inl e \<Rightarrow> Inl e | Inr lin \<Rightarrow> Inr (t[k := lin])))"

definition celula :: "tabela \<Rightarrow> int \<Rightarrow> int \<Rightarrow> erro + int" where
  "celula t l c = (case item t l of Inl e \<Rightarrow> Inl e | Inr lin \<Rightarrow> item lin c)"

definition mover :: "tabela \<Rightarrow> int \<times> int \<Rightarrow> int \<times> int \<Rightarrow> erro + tabela" where
  "mover t origem destino =
     (let copia = copiar t; (i, j) = origem; (r, c) = destino in
      case celula copia r c of
        Inl e \<Rightarrow> Inl e
      | Inr x \<Rightarrow>
          (case celula copia i j of
             Inl e \<Rightarrow> Inl e
           | Inr y \<Rightarrow>
               (case atribuir_celula copia i j x of
                  Inl e \<Rightarrow> Inl e
                | Inr copia1 \<Rightarrow> atribuir_celula copia1 r c y)))"

text \<open>
  \<open>QuebraCabeca.__str__\<close>: the decimal numerals of the cells, row after row, joined
  without separator. \<open>str_int\<close> is Python's \<open>str\<close> on an integer.
\<close>

fun digitos :: "nat \<Rightarrow> string" where
  "digitos n =
     (if n < 10 then [''0123456789'' ! n]
      else digitos (n div 10) @ [''0123456789'' ! (n mod 10)])"

definition str_int :: "int \<Rightarrow> string" where
  "str_int i = (if i < 0 then CHR ''-'' # digitos (nat (- i)) else digitos (nat i))"

definition str :: "tabela \<Rightarrow> string" where
  "str t = concat (map str_int (concat t))"

section \<open>The search engine: class Busca\<close>

text \<open>
  What the engine uses of a state: the goal test (\<open>objetivo\<close>), the enumeration of
  actions (\<open>acoes\<close>) and the key (\<open>str\<close>). An action is a pair of a closure and a label;
  the engine calls every closure of the list it sorted, so the enumeration here gives the
  state each closure returns. The first two may raise.
\<close>

record 's estado_api =
  objetivo_de :: "'s \<Rightarrow> erro + bool"
  acoes_de :: "'s \<Rightarrow> erro + ('s \<times> string) list"
  str_de :: "'s \<Rightarrow> string"

text \<open>The closures of \<open>QuebraCabeca.acoes\<close>, each called on the board it was made for.\<close>

fun chamar :: "tabela \<Rightarrow> (movimento \<times> string) list \<Rightarrow> erro + (tabela \<times> string) list" where
  "chamar t [] = Inr []"
| "chamar t (((origem, destino), rotulo) # ms) =
     (case mover t origem destino of
        Inl e \<Rightarrow> Inl e
      | Inr t' \<Rightarrow> (case chamar t ms of Inl e \<Rightarrow> Inl e | Inr rs \<Rightarrow> Inr ((t', rotulo) # rs)))"

definition QuebraCabeca :: "tabela estado_api" where
  "QuebraCabeca =
     \<lparr>objetivo_de = objetivo,
      acoes_de = (\<lambda>t. case acoes t of Inl e \<Rightarrow> Inl e | Inr ms \<Rightarrow> chamar t ms),
      str_de = str\<rparr>"

text \<open>
  The variables of \<open>buscar\<close>: the frontier \<open>borda\<close> (a deque, front first) and the set
  \<open>explorado\<close> of keys. Two counters that the code does not hold record the run:
  \<open>criados\<close> counts the calls of \<open>Nodo(...)\<close>, \<open>retirados\<close> the nodes taken from the
  frontier.
\<close>

record 's busca_estado =
  borda :: "'s nodo list"
  explorado :: "string set"
  criados :: nat
  retirados :: nat

text \<open>What a call of \<open>buscar\<close> gives: the path, \<open>None\<close>, or an exception of the state.\<close>

datatype 's retorno = Caminho "'s nodo list" | Nenhum | Levantou erro

text \<open>
  The \<open>for\<close> loop over the sorted actions, the same in both modes: the node is built
  first, then its key is looked up; a new key is appended to the frontier and added to
  the set at once.
\<close>

fun expandir ::
  "'s estado_api \<Rightarrow> 's nodo \<Rightarrow> ('s \<times> string) list \<Rightarrow> 's busca_estado \<Rightarrow> 's busca_estado" where
  "expandir api nodo_atual [] st = st"
| "expandir api nodo_atual ((s, a) # resto) st =
     (let adjacente = Nodo_init s (Some nodo_atual) (Some a);
          st1 = st\<lparr>criados := criados st + 1\<rparr>
      in if str_de api (estado adjacente) \<notin> explorado st1
         then expandir api nodo_atual resto
                (st1\<lparr>borda := borda st1 @ [adjacente],
                     explorado := insert (str_de api (estado adjacente)) (explorado st1)\<rparr>)
         else expandir api nodo_atual resto st1)"

text \<open>
  \<open>sorted(acoes, key=lambda x: x[1])\<close> is a stable sort on the labels, compared as
  strings; with \<open>reverse=True\<close> the labels descend and equal labels keep their order.
\<close>

definition sorted_acao :: "('s \<times> string) list \<Rightarrow> ('s \<times> string) list" where
  "sorted_acao acs = sort_key snd acs"

definition sorted_acao_reverse :: "('s \<times> string) list \<Rightarrow> ('s \<times> string) list" where
  "sorted_acao_reverse acs = rev (sort_key snd (rev acs))"

text \<open>
  The body of the \<open>while\<close> loop of each mode: \<open>Inl\<close> when it returns or raises,
  \<open>Inr\<close> when the loop goes on. \<open>popleft\<close> and \<open>pop\<close> raise IndexError on an empty
  deque.
\<close>

definition apos_retirar ::
  "'s estado_api \<Rightarrow> (('s \<times> string) list \<Rightarrow> ('s \<times> string) list) \<Rightarrow> 's nodo \<Rightarrow> 's busca_estado
   \<Rightarrow> ('s retorno \<times> 's busca_estado) + 's busca_estado" where
  "apos_retirar api ordenar nodo_atual st =
     (case objetivo_de api (estado nodo_atual) of
        Inl e \<Rightarrow> Inl (Levantou e, st)
      | Inr True \<Rightarrow> Inl (Caminho (caminho nodo_atual), st)
      | Inr False \<Rightarrow>
          (case acoes_de api (estado nodo_atual) of
             Inl e \<Rightarrow> Inl (Levantou e, st)
           | Inr acs \<Rightarrow> Inr (expandir api nodo_atual (ordenar acs) st)))"

definition corpo_largura ::
  "'s estado_api \<Rightarrow> 's busca_estado \<Rightarrow> ('s retorno \<times> 's busca_estado) + 's busca_estado" where
  "corpo_largura api st =
     (case borda st of
        [] \<Rightarrow> Inl (Levantou IndexError, st)
      | nodo_atual # resto \<Rightarrow>
          apos_retirar api sorted_acao nodo_atual
            (st\<lparr>borda := resto, retirados := retirados st + 1\<rparr>))"

definition corpo_profundidade ::
  "'s estado_api \<Rightarrow> 's busca_estado \<Rightarrow> ('s retorno \<times> 's busca_estado) + 's busca_estado" where
  "corpo_profundidade api st =
     (if borda st = [] then Inl (Levantou IndexError, st)
      else
        apos_retirar api sorted_acao_reverse (last (borda st))
          (st\<lparr>borda := butlast (borda st), retirados := retirados st + 1\<rparr>))"

text \<open>
  \<open>while borda: ...\<close> with fuel: each test of the loop condition takes one unit, and
  \<open>None\<close> means that the fuel ran out before the loop ended. Leaving the loop with an
  empty frontier falls to the end of \<open>buscar\<close>, which returns \<open>None\<close>
  (\<open>Nenhum\<close>).
\<close>

fun laco ::
  "('s busca_estado \<Rightarrow> ('s retorno \<times> 's busca_estado) + 's busca_estado) \<Rightarrow> nat \<Rightarrow> 's busca_estado
   \<Rightarrow> ('s retorno \<times> 's busca_estado) option" where
  "laco corpo 0 st = None"
| "laco corpo (Suc k) st =
     (if borda st = [] then Some (Nenhum, st)
      else (case corpo st of Inl r \<Rightarrow> Some r | Inr st' \<Rightarrow> laco corpo k st'))"

text \<open>
  \<open>Busca.buscar\<close> on the start state \<open>self.inicio\<close>. The result carries the variables
  as they are when the call ends. The parameter \<open>mostrar\<close> only prints, and is left
  out.
\<close>

definition buscar ::
  "nat \<Rightarrow> 's estado_api \<Rightarrow> 's \<Rightarrow> string \<Rightarrow> ('s retorno \<times> 's busca_estado) option" where
  "buscar combustivel api inicio tipo_busca =
     (let raiz = Nodo_init inicio None None;
          st0 = \<lparr>borda = [raiz], explorado = {str_de api (estado raiz)},
                 criados = 1, retirados = 0\<rparr>
      in if tipo_busca = ''largura'' then laco (corpo_largura api) combustivel st0
         else if tipo_busca = ''profundidade'' then laco (corpo_profundidade api) combustivel st0
         else Some (Nenhum, st0))"

text \<open>The start board of \<open>main\<close>.\<close>

definition estado_inicial :: tabela where
  "estado_inicial = [[6, 9, 8], [7, 1, 3], [2, 5, 4]]"

section \<open>Notions used in the statements\<close>

text \<open>
  The variables of \<open>buscar\<close> when the mode is tested: one node, the root, in the
  frontier, and its key in the set.
\<close>

definition variaveis_iniciais :: "'s estado_api \<Rightarrow> 's \<Rightarrow> 's busca_estado" where
  "variaveis_iniciais api ini =
     \<lparr>borda = [Nodo ini None ''Z''], explorado = {str_de api ini}, criados = 1, retirados = 0\<rparr>"

text \<open>The two loop bodies of \<open>buscar\<close>.\<close>

definition um_passo ::
  "'s estado_api \<Rightarrow> ('s busca_estado \<Rightarrow> ('s retorno \<times> 's busca_estado) + 's busca_estado) \<Rightarrow> bool" where
  "um_passo api corpo = (corpo = corpo_largura api \<or> corpo = corpo_profundidade api)"

text \<open>
  The children that the \<open>for\<close> loop appends to the frontier when it runs over the
  actions \<open>acs\<close> of node \<open>n\<close> with the set of keys \<open>E\<close>, and the keys of a list of
  actions.
\<close>

fun novos :: "'s estado_api \<Rightarrow> 's nodo \<Rightarrow> ('s \<times> string) list \<Rightarrow> string set \<Rightarrow> 's nodo list" where
  "novos api n [] E = []"
| "novos api n ((s, a) # resto) E =
     (if str_de api s \<notin> E then Nodo s (Some n) a # novos api n resto (insert (str_de api s) E)
      else novos api n resto E)"

definition chaves :: "'s estado_api \<Rightarrow> ('s \<times> string) list \<Rightarrow> string set" where
  "chaves api acs = str_de api ` fst ` set acs"

text \<open>
  A node records a valid path from \<open>ini\<close>: the root holds \<open>ini\<close> with the label
  \<open>"Z"\<close>; any other node holds a state and a label that the actions of its parent's
  state list together, the parent's state is not a goal, and the parent records a valid
  path. \<open>passos\<close> says the same of a list of nodes, root first.
\<close>

fun caminho_valido :: "'s estado_api \<Rightarrow> 's \<Rightarrow> 's nodo \<Rightarrow> bool" where
  "caminho_valido api ini (Nodo e None a) = (e = ini \<and> a = ''Z'')"
| "caminho_valido api ini (Nodo e (Some p) a) =
     (objetivo_de api (estado p) = Inr False
      \<and> (case acoes_de api (estado p) of Inl x \<Rightarrow> False | Inr acs \<Rightarrow> (e, a) \<in> set acs)
      \<and> caminho_valido api ini p)"

fun passos :: "'s estado_api \<Rightarrow> 's nodo list \<Rightarrow> bool" where
  "passos api [] = True"
| "passos api [n] = True"
| "passos api (m # n # ns) =
     (pai n = Some m \<and> objetivo_de api (estado m) = Inr False
      \<and> (case acoes_de api (estado m) of Inl x \<Rightarrow> False | Inr acs \<Rightarrow> (estado n, acao n) \<in> set acs)
      \<and> passos api (n # ns))"

definition inv_caminhos :: "'s estado_api \<Rightarrow> 's \<Rightarrow> 's busca_estado \<Rightarrow> bool" where
  "inv_caminhos api ini st = (\<forall>n \<in> set (borda st). caminho_valido api ini n)"

text \<open>
  The key of a node's state, and the counting invariant of the loop: the set of keys is
  finite and has one key for each node that was ever placed on the frontier (taken from
  it or still there), no more keys than nodes were built, and the nodes on the frontier
  have distinct keys, all in the set.
\<close>

definition chave_nodo :: "'s estado_api \<Rightarrow> 's nodo \<Rightarrow> string" where
  "chave_nodo api n = str_de api (estado n)"

definition inv_contagem :: "'s estado_api \<Rightarrow> 's busca_estado \<Rightarrow> bool" where
  "inv_contagem api st =
     (finite (explorado st)
      \<and> card (explorado st) = retirados st + length (borda st)
      \<and> card (explorado st) \<le> criados st
      \<and> distinct (map (chave_nodo api) (borda st))
      \<and> chave_nodo api ` set (borda st) \<subseteq> explorado st)"

text \<open>
  A set of states is closed when the actions of its states lead to its states, and free
  of failure when the goal test and the actions do not raise on it. \<open>inv_dominio\<close>
  keeps the frontier and the keys inside a closed set; \<open>medida\<close> is what an iteration
  of the loop decreases: the keys of the set not yet explored, plus the length of the
  frontier.
\<close>

definition fechado :: "'s estado_api \<Rightarrow> 's set \<Rightarrow> bool" where
  "fechado api S =
     (\<forall>s \<in> S. case acoes_de api s of Inl e \<Rightarrow> True | Inr acs \<Rightarrow> fst ` set acs \<subseteq> S)"

definition sem_falha :: "'s estado_api \<Rightarrow> 's set \<Rightarrow> bool" where
  "sem_falha api S =
     (\<forall>s \<in> S. (case objetivo_de api s of Inl e \<Rightarrow> False | Inr b \<Rightarrow> True)
              \<and> (case acoes_de api s of Inl e \<Rightarrow> False | Inr acs \<Rightarrow> True))"

definition inv_dominio :: "'s estado_api \<Rightarrow> 's set \<Rightarrow> 's busca_estado \<Rightarrow> bool" where
  "inv_dominio api S st =
     (estado ` set (borda st) \<subseteq> S \<and> explorado st \<subseteq> str_de api ` S)"

definition medida :: "'s estado_api \<Rightarrow> 's set \<Rightarrow> 's busca_estado \<Rightarrow> nat" where
  "medida api S st = card (str_de api ` S - explorado st) + length (borda st)"

text \<open>
  The 3 by 3 boards with cells in \<open>V\<close>, and the positions of a 3 by 3 board.
\<close>

definition tabuleiros :: "int set \<Rightarrow> tabela set" where
  "tabuleiros V = {t. length t = 3 \<and> (\<forall>lin \<in> set t. length lin = 3 \<and> set lin \<subseteq> V)}"

definition na_tabela :: "int \<times> int \<Rightarrow> bool" where
  "na_tabela p = (0 \<le> fst p \<and> fst p < 3 \<and> 0 \<le> snd p \<and> snd p < 3)"

text \<open>
  A state class over the natural numbers in which two actions of a state lead to the
  same state: from 0 the actions \<open>a\<close> and \<open>c\<close> lead to 1 and \<open>b\<close> leads to 2; no
  state is a goal and the key is the decimal numeral.
\<close>

definition estado_repetido :: "nat estado_api" where
  "estado_repetido =
     \<lparr>objetivo_de = (\<lambda>s. Inr False),
      acoes_de = (\<lambda>s. if s = 0 then Inr [(1, ''a''), (2, ''b''), (1, ''c'')] else Inr []),
      str_de = digitos\<rparr>"

text \<open>The child node that the loop builds for an action of node \<open>n\<close>.\<close>

definition filho :: "'s nodo \<Rightarrow> 's \<times> string \<Rightarrow> 's nodo" where
  "filho n sa = Nodo (fst sa) (Some n) (snd sa)"

section \<open>The list objects of a board\<close>

text \<open>
  \<open>copiar\<close> and \<open>mover\<close> once more, on the objects themselves: a store is the list of
  the objects allocated so far, and the address of an object is its index. A row is a
  list of integers, \<open>self.tabela\<close> a list of references to rows, and a
  \<open>QuebraCabeca\<close> object holds the reference to its \<open>tabela\<close>. Reading an address as
  an object of another kind is a TypeError (as iterating or indexing an object that is
  not a list); so is reading an address that is not allocated, which Python cannot do.
\<close>

datatype objeto = Lista_int "int list" | Lista_ref "nat list" | Objeto_QuebraCabeca nat

type_synonym memoria = "objeto list"

definition ler :: "memoria \<Rightarrow> nat \<Rightarrow> erro + objeto" where
  "ler h a = (if a < length h then Inr (h ! a) else Inl TypeError)"

definition ler_inteiros :: "memoria \<Rightarrow> nat \<Rightarrow> erro + int list" where
  "ler_inteiros h a = (case ler h a of Inr (Lista_int xs) \<Rightarrow> Inr xs | _ \<Rightarrow> Inl TypeError)"

definition ler_refs :: "memoria \<Rightarrow> nat \<Rightarrow> erro + nat list" where
  "ler_refs h a = (case ler h a of Inr (Lista_ref refs) \<Rightarrow> Inr refs | _ \<Rightarrow> Inl TypeError)"

definition ler_tabela :: "memoria \<Rightarrow> nat \<Rightarrow> erro + nat" where
  "ler_tabela h q = (case ler h q of Inr (Objeto_QuebraCabeca t) \<Rightarrow> Inr t | _ \<Rightarrow> Inl TypeError)"

text \<open>A new object gets the next address.\<close>

definition alocar :: "memoria \<Rightarrow> objeto \<Rightarrow> memoria \<times> nat" where
  "alocar h ob = (h @ [ob], length h)"

text \<open>
  \<open>copiar\<close>: \<open>tabela = []\<close> allocates the new outer list; the loop allocates, for each
  row of \<open>self.tabela\<close>, the list \<open>[x for x in lin]\<close> and appends its reference to the
  new outer list; \<open>QuebraCabeca(tabela)\<close> allocates the new object.
\<close>

fun copiar_linhas :: "memoria \<Rightarrow> nat \<Rightarrow> nat list \<Rightarrow> memoria \<times> (erro + unit)" where
  "copiar_linhas h nova [] = (h, Inr ())"
| "copiar_linhas h nova (lin # resto) =
     (case ler_inteiros h lin of
        Inl e \<Rightarrow> (h, Inl e)
      | Inr xs \<Rightarrow>
          (let (h1, a) = alocar h (Lista_int (map (\<lambda>x. x) xs)) in
           case ler_refs h1 nova of
             Inl e \<Rightarrow> (h1, Inl e)
           | Inr refs \<Rightarrow> copiar_linhas (h1[nova := Lista_ref (refs @ [a])]) nova resto))"

definition copiar_mem :: "memoria \<Rightarrow> nat \<Rightarrow> memoria \<times> (erro + nat)" where
  "copiar_mem h q =
     (let (h1, nova) = alocar h (Lista_ref []) in
      case ler_tabela h1 q of
        Inl e \<Rightarrow> (h1, Inl e)
      | Inr t \<Rightarrow>
          (case ler_refs h1 t of
             Inl e \<Rightarrow> (h1, Inl e)
           | Inr linhas \<Rightarrow>
               (case copiar_linhas h1 nova linhas of
                  (h2, Inl e) \<Rightarrow> (h2, Inl e)
                | (h2, Inr u) \<Rightarrow>
                    (let (h3, copia) = alocar h2 (Objeto_QuebraCabeca nova) in (h3, Inr copia)))))"

text \<open>
  \<open>obj.tabela[l][c]\<close> read and assigned; the assignment changes the row object in
  place, at its address.
\<close>

definition ler_celula :: "memoria \<Rightarrow> nat \<Rightarrow> int \<Rightarrow> int \<Rightarrow> erro + int" where
  "ler_celula h q l c =
     (case ler_tabela h q of
        Inl e \<Rightarrow> Inl e
      | Inr t \<Rightarrow>
          (case ler_refs h t of
             Inl e \<Rightarrow> Inl e
           | Inr refs \<Rightarrow>
               (case item refs l of
                  Inl e \<Rightarrow> Inl e
                | Inr a \<Rightarrow> (case ler_inteiros h a of Inl e \<Rightarrow> Inl e | Inr xs \<Rightarrow> item xs c))))"

definition escrever_celula :: "memoria \<Rightarrow> nat \<Rightarrow> int \<Rightarrow> int \<Rightarrow> int \<Rightarrow> erro + memoria" where
  "escrever_celula h q l c v =
     (case ler_tabela h q of
        Inl e \<Rightarrow> Inl e
      | Inr t \<Rightarrow>
          (case ler_refs h t of
             Inl e \<Rightarrow> Inl e
           | Inr refs \<Rightarrow>
               (case item refs l of
                  Inl e \<Rightarrow> Inl e
                | Inr a \<Rightarrow>
                    (case ler_inteiros h a of
                       Inl e \<Rightarrow> Inl e
                     | Inr xs \<Rightarrow>
                         (case atribuir xs c v of
                            Inl e \<Rightarrow> Inl e
                          | Inr xs' \<Rightarrow> Inr (h[a := Lista_int xs']))))))"

text \<open>
  \<open>mover\<close>: the copy, the two reads of the right-hand side, the two assignments. The
  store is returned also when an index raises.
\<close>

definition mover_mem :: "memoria \<Rightarrow> nat \<Rightarrow> int \<times> int \<Rightarrow> int \<times> int \<Rightarrow> memoria \<times> (erro + nat)" where
  "mover_mem h q origem destino =
     (case copiar_mem h q of
        (h1, Inl e) \<Rightarrow> (h1, Inl e)
      | (h1, Inr copia) \<Rightarrow>
          (let (i, j) = origem; (r, c) = destino in
           case ler_celula h1 copia r c of
             Inl e \<Rightarrow> (h1, Inl e)
           | Inr x \<Rightarrow>
               (case ler_celula h1 copia i j of
                  Inl e \<Rightarrow> (h1, Inl e)
                | Inr y \<Rightarrow>
                    (case escrever_celula h1 copia i j x of
                       Inl e \<Rightarrow> (h1, Inl e)
                     | Inr h2 \<Rightarrow>
                         (case escrever_celula h2 copia r c y of
                            Inl e \<Rightarrow> (h2, Inl e)
                          | Inr h3 \<Rightarrow> (h3, Inr copia))))))"

text \<open>The board that an object of the store denotes.\<close>

fun linhas_de :: "memoria \<Rightarrow> nat list \<Rightarrow> erro + tabela" where
  "linhas_de h [] = Inr []"
| "linhas_de h (a # as) =
     (case ler_inteiros h a of
        Inl e \<Rightarrow> Inl e
      | Inr xs \<Rightarrow> (case linhas_de h as of Inl e \<Rightarrow> Inl e | Inr t \<Rightarrow> Inr (xs # t)))"

definition tabela_de :: "memoria \<Rightarrow> nat \<Rightarrow> erro + tabela" where
  "tabela_de h q =
     (case ler_tabela h q of
        Inl e \<Rightarrow> Inl e
      | Inr t \<Rightarrow> (case ler_refs h t of Inl e \<Rightarrow> Inl e | Inr refs \<Rightarrow> linhas_de h refs))"

text \<open>A store with the start board of \<open>main\<close>: three rows, the outer list, the object.\<close>

definition exemplo :: memoria where
  "exemplo = [Lista_int [6, 9, 8], Lista_int [7, 1, 3], Lista_int [2, 5, 4],
              Lista_ref [0, 1, 2], Objeto_QuebraCabeca 3]"

text \<open>
  \<open>preserva n h h'\<close>: the objects at the addresses below \<open>n\<close> are the same in both
  stores. \<open>copia_de h n0 nova refs t\<close>: the outer list at \<open>nova\<close> refers to the rows
  \<open>refs\<close>, pairwise distinct objects at addresses from \<open>n0\<close> on, which hold the rows
  of \<open>t\<close>.
\<close>

definition preserva :: "nat \<Rightarrow> memoria \<Rightarrow> memoria \<Rightarrow> bool" where
  "preserva n h h' = (n \<le> length h' \<and> (\<forall>a < n. h' ! a = h ! a))"

definition copia_de :: "memoria \<Rightarrow> nat \<Rightarrow> nat \<Rightarrow> nat list \<Rightarrow> tabela \<Rightarrow> bool" where
  "copia_de h n0 nova refs t =
     (n0 \<le> nova \<and> nova < length h \<and> h ! nova = Lista_ref refs
      \<and> distinct refs \<and> nova \<notin> set refs \<and> (\<forall>a \<in> set refs. n0 \<le> a \<and> a < length h)
      \<and> map (ler_inteiros h) refs = map Inr t)"

text \<open>
  The graph of the state space: the successors of a state are the states its actions
  lead to (none when \<open>acoes\<close> raises), and \<open>alcancaveis api ini k\<close> are the states at
  the end of a path of \<open>k\<close> actions from \<open>ini\<close>. The depth \<open>prof\<close> of a node is the
  number of actions of its path.
\<close>

definition sucessores :: "'s estado_api \<Rightarrow> 's \<Rightarrow> 's set" where
  "sucessores api s = (case acoes_de api s of Inl e \<Rightarrow> {} | Inr acs \<Rightarrow> fst ` set acs)"

fun alcancaveis :: "'s estado_api \<Rightarrow> 's \<Rightarrow> nat \<Rightarrow> 's set" where
  "alcancaveis api ini 0 = {ini}"
| "alcancaveis api ini (Suc k) = (\<Union>s \<in> alcancaveis api ini k. sucessores api s)"

definition prof :: "'s nodo \<Rightarrow> nat" where
  "prof n = length (cadeia n) - 1"

text \<open>
  The invariant of the breadth-first loop, with the set \<open>C\<close> of the states expanded so
  far: the keys are those of the expanded states and of the frontier, all inside the
  closed set \<open>S\<close>; no expanded state is a goal and the successors of expanded states
  are expanded or on the frontier; the frontier is sorted by depth and spans at most two
  depths; and a state at the end of a path of \<open>m\<close> actions is expanded, or on the frontier
  at depth at most \<open>m\<close>, or the frontier has a node of depth below \<open>m\<close>.
\<close>

definition inv_largura :: "'s estado_api \<Rightarrow> 's set \<Rightarrow> 's \<Rightarrow> 's set \<Rightarrow> 's busca_estado \<Rightarrow> bool" where
  "inv_largura api S ini C st =
     (C \<subseteq> S \<and> estado ` set (borda st) \<subseteq> S
      \<and> explorado st = str_de api ` (C \<union> estado ` set (borda st))
      \<and> (\<forall>s \<in> C. objetivo_de api s \<noteq> Inr True)
      \<and> (\<forall>s \<in> C. sucessores api s \<subseteq> C \<union> estado ` set (borda st))
      \<and> ini \<in> C \<union> estado ` set (borda st)
      \<and> sorted (map prof (borda st))
      \<and> (\<forall>n \<in> set (borda st). prof n \<le> Suc (prof (hd (borda st))))
      \<and> (\<forall>m s. s \<in> alcancaveis api ini m \<longrightarrow>
             s \<in> C \<or> (\<exists>n \<in> set (borda st). estado n = s \<and> prof n \<le> m)
             \<or> (\<exists>n \<in> set (borda st). prof n < m)))"

text \<open>
  The cell of a board at a position; the candidate moves that \<open>acoes\<close> runs through,
  each cell with its four directions, in the order of the two loops; and the moves it
  keeps on a 3 by 3 board: those whose destination is on the board and holds 9.
\<close>

definition cel :: "tabela \<Rightarrow> int \<times> int \<Rightarrow> int" where
  "cel t p = t ! nat (fst p) ! nat (snd p)"

definition candidatos :: "((int \<times> int) \<times> string \<times> int \<times> int) list" where
  "candidatos =
     concat (map (\<lambda>ij. map (Pair ij) (direcoes (fst ij) (snd ij))) (List.product [0, 1, 2] [0, 1, 2]))"

definition escolhidos :: "tabela \<Rightarrow> (movimento \<times> string) list" where
  "escolhidos t =
     map (\<lambda>x. ((fst x, snd (snd x)), fst (snd x)))
       (filter (\<lambda>x. na_tabela (snd (snd x)) \<and> cel t (snd (snd x)) = 9) candidatos)"

section \<open>Path reconstruction\<close>

lemma caminho_laco_cadeia: "caminho_laco (Some n) acc = acc @ cadeia n"
proof (induction n arbitrary: acc rule: cadeia.induct)
  case (1 e a)
  show ?case by simp
next
  case (2 e p a)
  show ?case by (simp add: "2.IH")
qed

lemma caminho_rev_cadeia: "caminho n = rev (cadeia n)"
  by (simp add: caminho_def caminho_laco_cadeia)

lemma cadeia_hd: "hd (cadeia n) = n" "cadeia n \<noteq> []"
  by (induction n rule: cadeia.induct) simp_all

lemma cadeia_last_raiz: "pai (last (cadeia n)) = None"
  by (induction n rule: cadeia.induct) (simp_all add: cadeia_hd)

lemma elo_snoc: "elo xs \<Longrightarrow> xs \<noteq> [] \<Longrightarrow> pai n = Some (last xs) \<Longrightarrow> elo (xs @ [n])"
  by (induction xs rule: elo.induct) auto

lemma elo_rev_cadeia: "elo (rev (cadeia n))"
proof (induction n rule: cadeia.induct)
  case (1 e a)
  show ?case by simp
next
  case (2 e p a)
  have "last (rev (cadeia p)) = p"
    by (simp add: last_rev cadeia_hd)
  with 2 show ?case
    by (simp add: elo_snoc cadeia_hd)
qed

lemma elo_nth: "elo xs \<Longrightarrow> Suc i < length xs \<Longrightarrow> pai (xs ! Suc i) = Some (xs ! i)"
proof (induction xs arbitrary: i rule: elo.induct)
  case (3 m n ns)
  then show ?case by (cases i) auto
qed simp_all

text \<open>
  C6. Iterating \<open>caminho_\<close> of a node gives the nodes from the root to that node,
  inclusive: it is the reversal of the chain obtained by following the parent reference
  until none remains; the sequence is not empty, starts at a node without parent, ends
  at the node itself, and every later element has its predecessor as parent. For a node
  without parent it is the one-element sequence of that node.
\<close>

theorem caminho_raiz_ate_nodo:
  "caminho n = rev (cadeia n)
   \<and> caminho n \<noteq> []
   \<and> pai (hd (caminho n)) = None
   \<and> last (caminho n) = n
   \<and> (\<forall>i. Suc i < length (caminho n) \<longrightarrow> pai (caminho n ! Suc i) = Some (caminho n ! i))
   \<and> (pai n = None \<longrightarrow> caminho n = [n])"
proof -
  have a: "caminho n = rev (cadeia n)" by (rule caminho_rev_cadeia)
  have b: "caminho n \<noteq> []" by (simp add: a cadeia_hd)
  have c: "pai (hd (caminho n)) = None"
    by (simp add: a hd_rev cadeia_last_raiz)
  have d: "last (caminho n) = n"
    by (simp add: a last_rev cadeia_hd)
  have e: "\<forall>i. Suc i < length (caminho n) \<longrightarrow> pai (caminho n ! Suc i) = Some (caminho n ! i)"
    using elo_nth [OF elo_rev_cadeia [of n]] by (simp add: a)
  have f: "pai n = None \<longrightarrow> caminho n = [n]"
    by (cases n) (auto simp: caminho_rev_cadeia)
  from a b c d e f show ?thesis by blast
qed

theorem caminho_raiz_ate_nodo_witness:
  "caminho (Nodo (2::nat) (Some (Nodo 1 (Some (Nodo 0 None ''Z'')) ''1 Cima'')) ''3 Esquerda'')
     = [Nodo 0 None ''Z'', Nodo 1 (Some (Nodo 0 None ''Z'')) ''1 Cima'',
        Nodo 2 (Some (Nodo 1 (Some (Nodo 0 None ''Z'')) ''1 Cima'')) ''3 Esquerda'']
   \<and> caminho (Nodo (0::nat) None ''Z'') = [Nodo 0 None ''Z'']"
  using caminho_raiz_ate_nodo [of "Nodo (2::nat) (Some (Nodo 1 (Some (Nodo 0 None ''Z'')) ''1 Cima'')) ''3 Esquerda''"]
    caminho_raiz_ate_nodo [of "Nodo (0::nat) None ''Z''"]
  by simp

section \<open>The goal predicate\<close>

lemma unique_um:
  "(length (unique xs) = 1 \<and> unique xs ! 0 = v) = (xs \<noteq> [] \<and> (\<forall>x \<in> set xs. x = v))"
proof
  assume h: "length (unique xs) = 1 \<and> unique xs ! 0 = v"
  then obtain y where y: "unique xs = [y]"
    by (cases "unique xs") auto
  with h have "y = v" by simp
  moreover have "set (unique xs) = set xs" by (simp add: unique_def)
  ultimately have "set xs = {v}" using y by simp
  then show "xs \<noteq> [] \<and> (\<forall>x \<in> set xs. x = v)" by auto
next
  assume h: "xs \<noteq> [] \<and> (\<forall>x \<in> set xs. x = v)"
  then have s: "set xs = {v}" by (cases xs) auto
  have d: "distinct (unique xs)" by (simp add: unique_def)
  have sv: "set (unique xs) = {v}" using s by (simp add: unique_def)
  with d have "length (unique xs) = 1"
    using distinct_card [of "unique xs"] by simp
  then obtain y where y: "unique xs = [y]"
    by (cases "unique xs") auto
  with sv show "length (unique xs) = 1 \<and> unique xs ! 0 = v" by simp
qed

lemma objetivo_3x3:
  "objetivo [[a, b, c], [d, e, f], [g, h, i]] =
     Inr (a + b + c = 15 \<and> d + e + f = 15 \<and> g + h + i = 15
          \<and> a + d + g = 15 \<and> b + e + h = 15 \<and> c + f + i = 15
          \<and> a + e + i = 15 \<and> g + e + c = 15)"
proof -
  let ?t = "[[a, b, c], [d, e, f], [g, h, i]]"
  have r: "retangular ?t" by (simp add: retangular_def)
  have up: "[0..<3] = [0, 1, 2]" by (simp add: upt_rec)
  have s0: "sum_axis0 ?t = [a + d + g, b + e + h, c + f + i]"
    by (simp add: sum_axis0_def up)
  have s1: "sum_axis1 ?t = [a + b + c, d + e + f, g + h + i]"
    by (simp add: sum_axis1_def)
  have t1: "trace ?t = a + e + i" by (simp add: trace_def up)
  have t2: "trace (rev ?t) = g + e + c" by (simp add: trace_def up)
  have n3: "replicate (nat tamanho) x = [x, x, x]" for x :: int
    by (simp add: tamanho_def numeral_3_eq_3)
  show ?thesis
    unfolding objetivo_def Let_def
    by (simp only: r s0 s1 t1 t2 n3 unique_um if_False not_True_eq_False simp_thms) auto
qed

text \<open>
  C2. On every 3 by 3 board of tiles from 1 to 9, \<open>objetivo\<close> returns true exactly when
  the three row sums, the three column sums and the two diagonal sums are all 15 (and it
  does not raise).
\<close>

theorem objetivo_quadrado_magico:
  assumes "{a, b, c, d, e, f, g, h, i} \<subseteq> {1..9}"
  shows "objetivo [[a, b, c], [d, e, f], [g, h, i]] =
     Inr (a + b + c = 15 \<and> d + e + f = 15 \<and> g + h + i = 15
          \<and> a + d + g = 15 \<and> b + e + h = 15 \<and> c + f + i = 15
          \<and> a + e + i = 15 \<and> g + e + c = 15)"
  by (rule objetivo_3x3)

theorem objetivo_quadrado_magico_witness:
  "objetivo [[6, 1, 8], [7, 5, 3], [2, 9, 4]] = Inr True
   \<and> objetivo [[6, 9, 8], [7, 1, 3], [2, 5, 4]] = Inr False"
proof -
  have 1: "{6, 1, 8, 7, 5, 3, 2, 9, 4} \<subseteq> {1..9 :: int}" by simp
  have 2: "{6, 9, 8, 7, 1, 3, 2, 5, 4} \<subseteq> {1..9 :: int}" by simp
  from objetivo_quadrado_magico [OF 1] objetivo_quadrado_magico [OF 2] show ?thesis by simp
qed

section \<open>One iteration of the loop\<close>

lemma expandir_eq:
  "expandir api n acs st =
     st\<lparr>borda := borda st @ novos api n acs (explorado st),
        explorado := explorado st \<union> chaves api acs,
        criados := criados st + length acs\<rparr>"
proof (induction acs arbitrary: st)
  case Nil
  show ?case by (simp add: chaves_def)
next
  case (Cons x acs)
  obtain s a where x: "x = (s, a)" by (cases x)
  show ?case
    by (simp add: x Cons.IH Nodo_init_def chaves_def Let_def insert_absorb)
qed

lemma laco_inv:
  assumes "laco corpo k st = Some (r, stf)" and "I st"
    and step: "\<And>s s'. I s \<Longrightarrow> borda s \<noteq> [] \<Longrightarrow> corpo s = Inr s' \<Longrightarrow> I s'"
  shows "\<exists>s. I s \<and> ((borda s = [] \<and> r = Nenhum \<and> stf = s) \<or> (borda s \<noteq> [] \<and> corpo s = Inl (r, stf)))"
  using assms(1,2)
proof (induction k arbitrary: st)
  case 0
  then show ?case by simp
next
  case (Suc k)
  show ?case
  proof (cases "borda st = []")
    case True
    with Suc.prems show ?thesis by auto
  next
    case False
    show ?thesis
    proof (cases "corpo st")
      case (Inl x)
      with False Suc.prems show ?thesis by auto
    next
      case (Inr st')
      with False Suc.prems have "laco corpo k st' = Some (r, stf)" by simp
      moreover have "I st'" using step [OF Suc.prems(2) False Inr] .
      ultimately show ?thesis by (rule Suc.IH)
    qed
  qed
qed

lemma set_sorted_acao: "set (sorted_acao acs) = set acs" "length (sorted_acao acs) = length acs"
  by (simp_all add: sorted_acao_def)

lemma set_sorted_acao_reverse:
  "set (sorted_acao_reverse acs) = set acs" "length (sorted_acao_reverse acs) = length acs"
  by (simp_all add: sorted_acao_reverse_def)

lemma chaves_sorted:
  "chaves api (sorted_acao acs) = chaves api acs"
  "chaves api (sorted_acao_reverse acs) = chaves api acs"
  by (simp_all add: chaves_def set_sorted_acao set_sorted_acao_reverse)

lemma apos_retirar_Inr:
  assumes "apos_retirar api ordenar n st = Inr st'"
  shows "\<exists>acs. objetivo_de api (estado n) = Inr False \<and> acoes_de api (estado n) = Inr acs
           \<and> st' = expandir api n (ordenar acs) st"
  using assms by (auto simp: apos_retirar_def split: sum.splits bool.splits)

lemma apos_retirar_Inl:
  assumes "apos_retirar api ordenar n st = Inl (r, stf)"
  shows "stf = st \<and> (objetivo_de api (estado n) = Inr True \<and> r = Caminho (caminho n)
              \<or> (\<exists>e. r = Levantou e \<and> (objetivo_de api (estado n) = Inl e
                    \<or> objetivo_de api (estado n) = Inr False \<and> acoes_de api (estado n) = Inl e)))"
  using assms by (auto simp: apos_retirar_def split: sum.splits bool.splits)

lemma corpo_continua:
  assumes "um_passo api corpo" and "borda st \<noteq> []" and "corpo st = Inr st'"
  shows "\<exists>n resto acs ord.
           (corpo = corpo_largura api \<and> borda st = n # resto \<and> ord = sorted_acao acs
            \<or> corpo = corpo_profundidade api \<and> borda st = resto @ [n] \<and> ord = sorted_acao_reverse acs)
           \<and> objetivo_de api (estado n) = Inr False
           \<and> acoes_de api (estado n) = Inr acs
           \<and> st' = \<lparr>borda = resto @ novos api n ord (explorado st),
                    explorado = explorado st \<union> chaves api acs,
                    criados = criados st + length acs,
                    retirados = retirados st + 1\<rparr>"
proof -
  from assms(1) consider (L) "corpo = corpo_largura api" | (P) "corpo = corpo_profundidade api"
    by (auto simp: um_passo_def)
  then show ?thesis
  proof cases
    case L
    from assms(2) obtain n resto where b: "borda st = n # resto" by (cases "borda st") auto
    from assms(3) L b
    have "apos_retirar api sorted_acao n (st\<lparr>borda := resto, retirados := retirados st + 1\<rparr>) = Inr st'"
      by (simp add: corpo_largura_def)
    from apos_retirar_Inr [OF this] obtain acs where
      o: "objetivo_de api (estado n) = Inr False" and a: "acoes_de api (estado n) = Inr acs"
      and s: "st' = expandir api n (sorted_acao acs) (st\<lparr>borda := resto, retirados := retirados st + 1\<rparr>)"
      by blast
    have "st' = \<lparr>borda = resto @ novos api n (sorted_acao acs) (explorado st),
                    explorado = explorado st \<union> chaves api acs,
                    criados = criados st + length acs,
                    retirados = retirados st + 1\<rparr>"
      by (simp add: s expandir_eq chaves_sorted set_sorted_acao)
    with L b o a show ?thesis by blast
  next
    case P
    define n where "n = last (borda st)"
    define resto where "resto = butlast (borda st)"
    from assms(2) have b: "borda st = resto @ [n]" by (simp add: n_def resto_def)
    from assms(2,3) P
    have "apos_retirar api sorted_acao_reverse n (st\<lparr>borda := resto, retirados := retirados st + 1\<rparr>) = Inr st'"
      by (simp add: corpo_profundidade_def n_def resto_def)
    from apos_retirar_Inr [OF this] obtain acs where
      o: "objetivo_de api (estado n) = Inr False" and a: "acoes_de api (estado n) = Inr acs"
      and s: "st' = expandir api n (sorted_acao_reverse acs) (st\<lparr>borda := resto, retirados := retirados st + 1\<rparr>)"
      by blast
    have "st' = \<lparr>borda = resto @ novos api n (sorted_acao_reverse acs) (explorado st),
                    explorado = explorado st \<union> chaves api acs,
                    criados = criados st + length acs,
                    retirados = retirados st + 1\<rparr>"
      by (simp add: s expandir_eq chaves_sorted set_sorted_acao_reverse)
    with P b o a show ?thesis by blast
  qed
qed

lemma corpo_termina:
  assumes "um_passo api corpo" and "borda st \<noteq> []" and "corpo st = Inl (r, stf)"
  shows "\<exists>n resto.
           (corpo = corpo_largura api \<and> borda st = n # resto
            \<or> corpo = corpo_profundidade api \<and> borda st = resto @ [n])
           \<and> stf = st\<lparr>borda := resto, retirados := retirados st + 1\<rparr>
           \<and> (objetivo_de api (estado n) = Inr True \<and> r = Caminho (caminho n)
              \<or> (\<exists>e. r = Levantou e \<and> (objetivo_de api (estado n) = Inl e
                    \<or> objetivo_de api (estado n) = Inr False \<and> acoes_de api (estado n) = Inl e)))"
proof -
  from assms(1) consider (L) "corpo = corpo_largura api" | (P) "corpo = corpo_profundidade api"
    by (auto simp: um_passo_def)
  then show ?thesis
  proof cases
    case L
    from assms(2) obtain n resto where b: "borda st = n # resto" by (cases "borda st") auto
    from assms(3) L b
    have "apos_retirar api sorted_acao n (st\<lparr>borda := resto, retirados := retirados st + 1\<rparr>) = Inl (r, stf)"
      by (simp add: corpo_largura_def)
    from apos_retirar_Inl [OF this] L b show ?thesis by blast
  next
    case P
    define n where "n = last (borda st)"
    define resto where "resto = butlast (borda st)"
    from assms(2) have b: "borda st = resto @ [n]" by (simp add: n_def resto_def)
    from assms(2,3) P
    have "apos_retirar api sorted_acao_reverse n (st\<lparr>borda := resto, retirados := retirados st + 1\<rparr>) = Inl (r, stf)"
      by (simp add: corpo_profundidade_def n_def resto_def)
    from apos_retirar_Inl [OF this] P b show ?thesis by blast
  qed
qed

lemma novos_filho:
  "c \<in> set (novos api n acs E) \<Longrightarrow>
     pai c = Some n \<and> (estado c, acao c) \<in> set acs \<and> str_de api (estado c) \<notin> E"
proof (induction acs arbitrary: E)
  case Nil
  then show ?case by simp
next
  case (Cons x acs)
  obtain s a where x: "x = (s, a)" by (cases x)
  from Cons.prems show ?case
    by (auto simp: x split: if_splits dest: Cons.IH)
qed

lemma novos_card:
  "finite E \<Longrightarrow> card (E \<union> chaves api acs) = card E + length (novos api n acs E)"
proof (induction acs arbitrary: E)
  case Nil
  show ?case by (simp add: chaves_def)
next
  case (Cons x acs)
  obtain s a where x: "x = (s, a)" by (cases x)
  have ch: "chaves api (x # acs) = insert (str_de api s) (chaves api acs)"
    by (simp add: chaves_def x)
  show ?case
  proof (cases "str_de api s \<in> E")
    case True
    then have "E \<union> chaves api (x # acs) = E \<union> chaves api acs" by (auto simp: ch)
    with True Cons.IH [OF Cons.prems] show ?thesis by (simp add: x)
  next
    case False
    have "E \<union> chaves api (x # acs) = insert (str_de api s) E \<union> chaves api acs"
      by (auto simp: ch)
    moreover have "card (insert (str_de api s) E \<union> chaves api acs)
        = card (insert (str_de api s) E) + length (novos api n acs (insert (str_de api s) E))"
      using Cons.prems by (intro Cons.IH) simp
    ultimately show ?thesis using False Cons.prems by (simp add: x)
  qed
qed

lemma laco_mais_combustivel: "laco corpo k st = Some r \<Longrightarrow> laco corpo (k + j) st = Some r"
proof (induction k arbitrary: st)
  case 0
  then show ?case by simp
next
  case (Suc k)
  show ?case
  proof (cases "borda st = []")
    case True
    with Suc.prems show ?thesis by simp
  next
    case False
    with Suc.prems Suc.IH show ?thesis by (cases "corpo st") simp_all
  qed
qed

lemma buscar_mais_combustivel:
  "buscar k api ini tipo = Some r \<Longrightarrow> buscar (k + j) api ini tipo = Some r"
  by (auto simp: buscar_def Let_def laco_mais_combustivel split: if_splits)

lemma buscar_casos:
  assumes "buscar k api ini tipo = Some (r, stf)"
  shows "(tipo \<noteq> ''largura'' \<and> tipo \<noteq> ''profundidade'' \<and> r = Nenhum \<and> stf = variaveis_iniciais api ini)
         \<or> (\<exists>corpo. um_passo api corpo \<and> laco corpo k (variaveis_iniciais api ini) = Some (r, stf))"
  using assms
  by (auto simp: buscar_def variaveis_iniciais_def Nodo_init_def um_passo_def Let_def split: if_splits)

lemma buscar_inv:
  assumes b: "buscar k api ini tipo = Some (r, stf)"
    and i0: "I (variaveis_iniciais api ini)"
    and step: "\<And>corpo s s'. um_passo api corpo \<Longrightarrow> I s \<Longrightarrow> borda s \<noteq> [] \<Longrightarrow> corpo s = Inr s' \<Longrightarrow> I s'"
  shows "(r = Nenhum \<and> stf = variaveis_iniciais api ini \<and> tipo \<noteq> ''largura'' \<and> tipo \<noteq> ''profundidade'')
         \<or> (\<exists>s. I s \<and> borda s = [] \<and> r = Nenhum \<and> stf = s)
         \<or> (\<exists>corpo s. um_passo api corpo \<and> I s \<and> borda s \<noteq> [] \<and> corpo s = Inl (r, stf))"
proof -
  from buscar_casos [OF b] consider
    (outro) "tipo \<noteq> ''largura'' \<and> tipo \<noteq> ''profundidade'' \<and> r = Nenhum \<and> stf = variaveis_iniciais api ini"
    | (modo) corpo where "um_passo api corpo" "laco corpo k (variaveis_iniciais api ini) = Some (r, stf)"
    by blast
  then show ?thesis
  proof cases
    case outro
    then show ?thesis by simp
  next
    case modo
    have "\<exists>s. I s \<and> ((borda s = [] \<and> r = Nenhum \<and> stf = s) \<or> (borda s \<noteq> [] \<and> corpo s = Inl (r, stf)))"
      by (rule laco_inv [where I = I, OF modo(2) i0]) (rule step [OF modo(1)])
    with modo(1) show ?thesis by blast
  qed
qed

section \<open>An unknown mode\<close>

text \<open>
  C10. With a mode other than \<open>'largura'\<close> and \<open>'profundidade'\<close>, \<open>buscar\<close> returns
  \<open>None\<close> at once, whatever the fuel: the frontier still holds the root, the only node
  built, nothing was taken from it, and the set holds the key of the start state only.
  The result does not depend on the goal test or on the actions of the state, which are
  not called.
\<close>

theorem buscar_tipo_desconhecido:
  assumes "tipo_busca \<noteq> ''largura''" and "tipo_busca \<noteq> ''profundidade''"
  shows "buscar combustivel api inicio tipo_busca =
           Some (Nenhum, \<lparr>borda = [Nodo inicio None ''Z''], explorado = {str_de api inicio},
                           criados = 1, retirados = 0\<rparr>)"
  using assms by (simp add: buscar_def Nodo_init_def)

theorem buscar_tipo_desconhecido_witness:
  "buscar 0 QuebraCabeca [[6, 9, 8], [7, 1, 3], [2, 5, 4]] ''custo'' =
     Some (Nenhum, \<lparr>borda = [Nodo [[6, 9, 8], [7, 1, 3], [2, 5, 4]] None ''Z''],
                     explorado = {''698713254''}, criados = 1, retirados = 0\<rparr>)"
proof -
  have "str_de QuebraCabeca [[6, 9, 8], [7, 1, 3], [2, 5, 4]] = ''698713254''"
    by code_simp
  then show ?thesis
    using buscar_tipo_desconhecido [of "''custo''" 0 QuebraCabeca "[[6, 9, 8], [7, 1, 3], [2, 5, 4]]"]
    by simp
qed

section \<open>The returned path\<close>

lemma passos_snoc:
  "passos api xs \<Longrightarrow> xs \<noteq> [] \<Longrightarrow> pai n = Some (last xs)
   \<Longrightarrow> objetivo_de api (estado (last xs)) = Inr False
   \<Longrightarrow> (case acoes_de api (estado (last xs)) of Inl x \<Rightarrow> False | Inr acs \<Rightarrow> (estado n, acao n) \<in> set acs)
   \<Longrightarrow> passos api (xs @ [n])"
  by (induction api xs rule: passos.induct) auto

lemma valido_passos:
  "caminho_valido api ini n \<Longrightarrow>
     passos api (rev (cadeia n)) \<and> hd (rev (cadeia n)) = Nodo ini None ''Z''"
proof (induction n rule: cadeia.induct)
  case (1 e a)
  then show ?case by simp
next
  case (2 e p a)
  from "2.prems" have v: "caminho_valido api ini p"
    and o: "objetivo_de api (estado p) = Inr False"
    and ac: "(case acoes_de api (estado p) of Inl x \<Rightarrow> False | Inr acs \<Rightarrow> (e, a) \<in> set acs)"
    by simp_all
  have l: "last (rev (cadeia p)) = p" by (simp add: last_rev cadeia_hd)
  have ne: "rev (cadeia p) \<noteq> []" by (simp add: cadeia_hd)
  from "2.IH" [OF v] have ps: "passos api (rev (cadeia p))"
    and h: "hd (rev (cadeia p)) = Nodo ini None ''Z''" by simp_all
  have "passos api (rev (cadeia p) @ [Nodo e (Some p) a])"
    using ac by (intro passos_snoc [OF ps ne]) (auto simp: l o split: sum.splits)
  with h ne show ?case by simp
qed

lemma passos_nth:
  "passos api xs \<Longrightarrow> Suc i < length xs \<Longrightarrow>
     pai (xs ! Suc i) = Some (xs ! i) \<and> objetivo_de api (estado (xs ! i)) = Inr False
     \<and> (\<exists>acs. acoes_de api (estado (xs ! i)) = Inr acs \<and> (estado (xs ! Suc i), acao (xs ! Suc i)) \<in> set acs)"
proof (induction api xs arbitrary: i rule: passos.induct)
  case (3 api m n ns)
  show ?case
  proof (cases i)
    case 0
    with "3.prems" show ?thesis by (auto split: sum.splits)
  next
    case (Suc j)
    with "3.prems" "3.IH" [of j] show ?thesis by simp
  qed
qed simp_all

lemma inv_caminhos_inicial: "inv_caminhos api ini (variaveis_iniciais api ini)"
  by (simp add: inv_caminhos_def variaveis_iniciais_def)

lemma filho_valido:
  assumes "caminho_valido api ini n" and "objetivo_de api (estado n) = Inr False"
    and "acoes_de api (estado n) = Inr acs" and "pai c = Some n" and "(estado c, acao c) \<in> set acs"
  shows "caminho_valido api ini c"
  using assms by (cases c) simp

lemma inv_caminhos_passo:
  assumes u: "um_passo api corpo" and i: "inv_caminhos api ini s" and ne: "borda s \<noteq> []"
    and c: "corpo s = Inr s'"
  shows "inv_caminhos api ini s'"
proof -
  from corpo_continua [OF u ne c] obtain n resto acs ord where
    b: "borda s = n # resto \<and> ord = sorted_acao acs \<or> borda s = resto @ [n] \<and> ord = sorted_acao_reverse acs"
    and o: "objetivo_de api (estado n) = Inr False"
    and a: "acoes_de api (estado n) = Inr acs"
    and s': "borda s' = resto @ novos api n ord (explorado s)"
    by fastforce
  from b have sb: "set (borda s) = insert n (set resto)" and so: "set ord = set acs"
    by (auto simp: set_sorted_acao set_sorted_acao_reverse)
  from i sb have vn: "caminho_valido api ini n" and vr: "\<forall>m \<in> set resto. caminho_valido api ini m"
    by (simp_all add: inv_caminhos_def)
  have "caminho_valido api ini c" if "c \<in> set (novos api n ord (explorado s))" for c
  proof -
    from novos_filho [OF that] so have "pai c = Some n" "(estado c, acao c) \<in> set acs" by simp_all
    then show ?thesis by (rule filho_valido [OF vn o a])
  qed
  with vr show ?thesis by (auto simp: inv_caminhos_def s')
qed

text \<open>
  C4. When \<open>buscar\<close> returns a path, in either mode, its first node is the root, with
  the start state and the label \<open>"Z"\<close>; each later node has its predecessor as parent,
  and its state and label are listed together by the actions of the predecessor's state;
  the state of the last node satisfies the goal test and the state of no earlier node
  does.
\<close>

theorem buscar_caminho_valido:
  assumes "buscar combustivel api inicio tipo_busca = Some (Caminho p, st)"
  shows "p \<noteq> [] \<and> hd p = Nodo inicio None ''Z''
     \<and> (\<forall>i. Suc i < length p \<longrightarrow>
           pai (p ! Suc i) = Some (p ! i)
           \<and> (\<exists>acs. acoes_de api (estado (p ! i)) = Inr acs
                 \<and> (estado (p ! Suc i), acao (p ! Suc i)) \<in> set acs))
     \<and> objetivo_de api (estado (last p)) = Inr True
     \<and> (\<forall>i. Suc i < length p \<longrightarrow> objetivo_de api (estado (p ! i)) = Inr False)"
proof -
  have "(Caminho p = Nenhum \<and> st = variaveis_iniciais api inicio
            \<and> tipo_busca \<noteq> ''largura'' \<and> tipo_busca \<noteq> ''profundidade'')
         \<or> (\<exists>s. inv_caminhos api inicio s \<and> borda s = [] \<and> Caminho p = Nenhum \<and> st = s)
         \<or> (\<exists>corpo s. um_passo api corpo \<and> inv_caminhos api inicio s \<and> borda s \<noteq> []
               \<and> corpo s = Inl (Caminho p, st))"
    by (rule buscar_inv [where I = "inv_caminhos api inicio", OF assms inv_caminhos_inicial])
      (rule inv_caminhos_passo)
  then obtain corpo s where u: "um_passo api corpo" and i: "inv_caminhos api inicio s"
    and ne: "borda s \<noteq> []" and c: "corpo s = Inl (Caminho p, st)"
    by auto
  from corpo_termina [OF u ne c] obtain n resto where
    b: "borda s = n # resto \<or> borda s = resto @ [n]"
    and o: "objetivo_de api (estado n) = Inr True" and p: "p = caminho n"
    by auto
  from b i have "caminho_valido api inicio n" by (auto simp: inv_caminhos_def)
  from valido_passos [OF this] have ps: "passos api p" and h: "hd p = Nodo inicio None ''Z''"
    by (simp_all add: p caminho_rev_cadeia)
  have ne: "p \<noteq> []" and l: "last p = n"
    by (simp_all add: p caminho_rev_cadeia cadeia_hd last_rev)
  from passos_nth [OF ps] ne h l o show ?thesis by blast
qed

theorem buscar_caminho_valido_witness:
  "map_option fst (buscar 10 QuebraCabeca estado_inicial ''largura'') =
     Some (Caminho
       [Nodo [[6, 9, 8], [7, 1, 3], [2, 5, 4]] None ''Z'',
        Nodo [[6, 1, 8], [7, 9, 3], [2, 5, 4]]
          (Some (Nodo [[6, 9, 8], [7, 1, 3], [2, 5, 4]] None ''Z'')) ''2 Baixo'',
        Nodo [[6, 1, 8], [7, 5, 3], [2, 9, 4]]
          (Some (Nodo [[6, 1, 8], [7, 9, 3], [2, 5, 4]]
            (Some (Nodo [[6, 9, 8], [7, 1, 3], [2, 5, 4]] None ''Z'')) ''2 Baixo'')) ''2 Baixo''])
   \<and> objetivo_de QuebraCabeca [[6, 1, 8], [7, 5, 3], [2, 9, 4]] = Inr True
   \<and> objetivo_de QuebraCabeca [[6, 1, 8], [7, 9, 3], [2, 5, 4]] = Inr False
   \<and> objetivo_de QuebraCabeca [[6, 9, 8], [7, 1, 3], [2, 5, 4]] = Inr False"
proof -
  let ?p = "[Nodo [[6, 9, 8], [7, 1, 3], [2, 5, 4]] None ''Z'',
        Nodo [[6, 1, 8], [7, 9, 3], [2, 5, 4]]
          (Some (Nodo [[6, 9, 8], [7, 1, 3], [2, 5, 4]] None ''Z'')) ''2 Baixo'',
        Nodo [[6, 1, 8], [7, 5, 3], [2, 9, 4]]
          (Some (Nodo [[6, 1, 8], [7, 9, 3], [2, 5, 4]]
            (Some (Nodo [[6, 9, 8], [7, 1, 3], [2, 5, 4]] None ''Z'')) ''2 Baixo'')) ''2 Baixo'']
        :: tabela nodo list"
  have r: "map_option fst (buscar 10 QuebraCabeca estado_inicial ''largura'') = Some (Caminho ?p)"
    by code_simp
  then obtain st where b: "buscar 10 QuebraCabeca estado_inicial ''largura'' = Some (Caminho ?p, st)"
    by auto
  have g: "objetivo_de QuebraCabeca (estado (last ?p)) = Inr True"
    and n: "\<forall>i. Suc i < length ?p \<longrightarrow> objetivo_de QuebraCabeca (estado (?p ! i)) = Inr False"
    using buscar_caminho_valido [OF b] by blast+
  from n [rule_format, of 0] n [rule_format, of 1] g r show ?thesis by simp
qed

section \<open>Keys and nodes\<close>

lemma novos_length: "length (novos api n acs E) \<le> length acs"
proof (induction acs arbitrary: E)
  case Nil
  show ?case by simp
next
  case (Cons x acs)
  obtain s a where x: "x = (s, a)" by (cases x)
  show ?case using Cons.IH [of E] Cons.IH [of "insert (str_de api s) E"]
    by (simp add: x le_SucI)
qed

lemma novos_chave:
  "c \<in> set (novos api n acs E) \<Longrightarrow> chave_nodo api c \<in> chaves api acs \<and> chave_nodo api c \<notin> E"
  using novos_filho [of c api n acs E]
  by (force simp: chaves_def chave_nodo_def)

lemma novos_distinct: "distinct (map (chave_nodo api) (novos api n acs E))"
proof (induction acs arbitrary: E)
  case Nil
  show ?case by simp
next
  case (Cons x acs)
  obtain s a where x: "x = (s, a)" by (cases x)
  show ?case
  proof (cases "str_de api s \<in> E")
    case True
    then show ?thesis using Cons.IH [of E] by (simp add: x)
  next
    case False
    have "str_de api s \<notin> chave_nodo api ` set (novos api n acs (insert (str_de api s) E))"
    proof
      assume "str_de api s \<in> chave_nodo api ` set (novos api n acs (insert (str_de api s) E))"
      then obtain c where "c \<in> set (novos api n acs (insert (str_de api s) E))"
        and "chave_nodo api c = str_de api s" by auto
      with novos_chave [of c api n acs "insert (str_de api s) E"] show False by simp
    qed
    with False Cons.IH [of "insert (str_de api s) E"] show ?thesis
      by (simp add: x chave_nodo_def)
  qed
qed

lemma inv_contagem_inicial: "inv_contagem api (variaveis_iniciais api ini)"
  by (simp add: inv_contagem_def variaveis_iniciais_def chave_nodo_def)

lemma inv_contagem_passo:
  assumes u: "um_passo api corpo" and i: "inv_contagem api s" and ne: "borda s \<noteq> []"
    and c: "corpo s = Inr s'"
  shows "inv_contagem api s'"
proof -
  from corpo_continua [OF u ne c] obtain n resto acs ord where
    b: "borda s = n # resto \<and> ord = sorted_acao acs \<or> borda s = resto @ [n] \<and> ord = sorted_acao_reverse acs"
    and s': "s' = \<lparr>borda = resto @ novos api n ord (explorado s),
                    explorado = explorado s \<union> chaves api acs,
                    criados = criados s + length acs,
                    retirados = retirados s + 1\<rparr>"
    by blast
  let ?nv = "novos api n ord (explorado s)"
  from b have lb: "length (borda s) = Suc (length resto)"
    and sb: "set resto \<subseteq> set (borda s)"
    and lo: "length ord = length acs" and co: "chaves api ord = chaves api acs"
    by (auto simp: set_sorted_acao set_sorted_acao_reverse chaves_sorted)
  from b i have dr: "distinct (map (chave_nodo api) resto)"
    by (auto simp: inv_contagem_def)
  from i have f: "finite (explorado s)" and k: "card (explorado s) = retirados s + length (borda s)"
    and cr: "card (explorado s) \<le> criados s"
    and sub: "chave_nodo api ` set (borda s) \<subseteq> explorado s"
    by (simp_all add: inv_contagem_def)
  have cd: "card (explorado s \<union> chaves api acs) = card (explorado s) + length ?nv"
    using novos_card [OF f, of api ord n] by (simp add: co)
  have fin: "finite (explorado s \<union> chaves api acs)"
    using f by (simp add: chaves_def)
  have le: "length ?nv \<le> length acs"
    using novos_length [of api n ord "explorado s"] by (simp add: lo)
  have nk: "chave_nodo api c \<in> chaves api acs \<and> chave_nodo api c \<notin> explorado s" if "c \<in> set ?nv" for c
    using novos_chave [OF that] by (simp add: co)
  have "chave_nodo api ` set resto \<subseteq> explorado s" using sub sb by auto
  moreover have "chave_nodo api ` set ?nv \<inter> explorado s = {}" using nk by auto
  ultimately have dj: "chave_nodo api ` set resto \<inter> chave_nodo api ` set ?nv = {}" by blast
  have d: "distinct (map (chave_nodo api) (resto @ ?nv))"
    using dr novos_distinct [of api n ord "explorado s"] dj by simp
  have sb': "chave_nodo api ` set (resto @ ?nv) \<subseteq> explorado s \<union> chaves api acs"
    using nk sub sb by auto
  show ?thesis
    unfolding inv_contagem_def s'
    using fin cd k lb cr le d sb' by simp
qed

text \<open>
  C3, as the code has it. When \<open>buscar\<close> ends, in any mode, the number of distinct
  keys in the set equals the number of nodes that were placed on the frontier (those
  taken from it plus those still on it), the nodes still on the frontier have distinct
  keys, and the number of \<open>Nodo\<close> objects built is at least the number of keys: a
  node is built for every action of an expanded node, before its key is looked up.
\<close>

theorem buscar_chaves_e_nodos:
  assumes "buscar combustivel api inicio tipo_busca = Some (r, st)"
  shows "finite (explorado st)
     \<and> card (explorado st) = retirados st + length (borda st)
     \<and> card (explorado st) \<le> criados st
     \<and> distinct (map (\<lambda>n. str_de api (estado n)) (borda st))"
proof -
  have "(r = Nenhum \<and> st = variaveis_iniciais api inicio
            \<and> tipo_busca \<noteq> ''largura'' \<and> tipo_busca \<noteq> ''profundidade'')
         \<or> (\<exists>s. inv_contagem api s \<and> borda s = [] \<and> r = Nenhum \<and> st = s)
         \<or> (\<exists>corpo s. um_passo api corpo \<and> inv_contagem api s \<and> borda s \<noteq> []
               \<and> corpo s = Inl (r, st))"
    by (rule buscar_inv [where I = "inv_contagem api", OF assms inv_contagem_inicial])
      (rule inv_contagem_passo)
  then consider (a) "st = variaveis_iniciais api inicio" | (b) "inv_contagem api st"
    | (c) corpo s where "um_passo api corpo" "inv_contagem api s" "borda s \<noteq> []" "corpo s = Inl (r, st)"
    by blast
  then have "inv_contagem api st"
  proof cases
    case a
    then show ?thesis by (simp add: inv_contagem_inicial)
  next
    case b
    then show ?thesis .
  next
    case c
    from corpo_termina [OF c(1,3,4)] obtain n resto where
      b: "borda s = n # resto \<or> borda s = resto @ [n]"
      and st: "st = s\<lparr>borda := resto, retirados := retirados s + 1\<rparr>"
      by blast
    from b c(2) show ?thesis
      by (auto simp: inv_contagem_def st)
  qed
  then show ?thesis
    by (simp add: inv_contagem_def chave_nodo_def [abs_def])
qed

text \<open>
  The claim that as many nodes are built as keys are added fails on the start board of
  \<open>main\<close> in breadth-first mode: 9 keys, 12 nodes.
\<close>

theorem nodos_construidos_counterexample:
  "card (explorado (snd (the (buscar 10 QuebraCabeca estado_inicial ''largura'')))) = 9
   \<and> criados (snd (the (buscar 10 QuebraCabeca estado_inicial ''largura''))) = 12"
  by code_simp

theorem buscar_chaves_e_nodos_witness:
  "card (explorado (snd (the (buscar 10 QuebraCabeca estado_inicial ''largura''))))
     = retirados (snd (the (buscar 10 QuebraCabeca estado_inicial ''largura'')))
       + length (borda (snd (the (buscar 10 QuebraCabeca estado_inicial ''largura''))))
   \<and> retirados (snd (the (buscar 10 QuebraCabeca estado_inicial ''largura''))) = 5"
proof -
  have "map_option (\<lambda>x. retirados (snd x)) (buscar 10 QuebraCabeca estado_inicial ''largura'') = Some 5"
    by code_simp
  then obtain r st where b: "buscar 10 QuebraCabeca estado_inicial ''largura'' = Some (r, st)"
    and k: "retirados st = 5"
    by auto
  from buscar_chaves_e_nodos [OF b] k show ?thesis by (simp add: b)
qed

section \<open>Termination\<close>

lemma fechado_chaves:
  assumes "fechado api S" and "s \<in> S" and "acoes_de api s = Inr acs"
  shows "fst ` set acs \<subseteq> S \<and> chaves api acs \<subseteq> str_de api ` S"
proof -
  from assms have "fst ` set acs \<subseteq> S"
    by (auto simp: fechado_def split: sum.splits)
  then show ?thesis by (auto simp: chaves_def)
qed

lemma novos_medida:
  "finite K \<Longrightarrow> chaves api acs \<subseteq> K \<Longrightarrow>
     card (K - (E \<union> chaves api acs)) + length (novos api n acs E) = card (K - E)"
proof (induction acs arbitrary: E)
  case Nil
  show ?case by (simp add: chaves_def)
next
  case (Cons x acs)
  obtain s a where x: "x = (s, a)" by (cases x)
  have ch: "chaves api (x # acs) = insert (str_de api s) (chaves api acs)"
    by (simp add: chaves_def x)
  from Cons.prems ch have sub: "chaves api acs \<subseteq> K" and kk: "str_de api s \<in> K" by auto
  show ?case
  proof (cases "str_de api s \<in> E")
    case True
    then have "E \<union> chaves api (x # acs) = E \<union> chaves api acs" by (auto simp: ch)
    with True Cons.IH [OF Cons.prems(1) sub, of E] show ?thesis by (simp add: x)
  next
    case False
    have e: "E \<union> chaves api ((s, a) # acs) = insert (str_de api s) E \<union> chaves api acs"
      using ch by (auto simp: x)
    have "K - E = insert (str_de api s) (K - insert (str_de api s) E)"
      using False kk by auto
    moreover have "str_de api s \<notin> K - insert (str_de api s) E" by simp
    moreover have "finite (K - insert (str_de api s) E)" using Cons.prems(1) by simp
    ultimately have c: "card (K - E) = Suc (card (K - insert (str_de api s) E))"
      by (metis card_insert_disjoint)
    from Cons.IH [OF Cons.prems(1) sub, of "insert (str_de api s) E"] False c
    show ?thesis by (simp only: x e novos.simps if_True) simp
  qed
qed

lemma inv_dominio_inicial: "ini \<in> S \<Longrightarrow> inv_dominio api S (variaveis_iniciais api ini)"
  by (simp add: inv_dominio_def variaveis_iniciais_def)

lemma medida_inicial:
  assumes "finite (str_de api ` S)" and "ini \<in> S"
  shows "medida api S (variaveis_iniciais api ini) = card (str_de api ` S)"
proof -
  have "str_de api ini \<in> str_de api ` S" using assms(2) by simp
  then have "card (str_de api ` S - {str_de api ini}) = card (str_de api ` S) - 1"
    by simp
  moreover have "0 < card (str_de api ` S)"
    using assms \<open>str_de api ini \<in> str_de api ` S\<close> card_gt_0_iff by blast
  ultimately show ?thesis by (simp add: medida_def variaveis_iniciais_def)
qed

lemma dominio_passo:
  assumes u: "um_passo api corpo" and fin: "finite (str_de api ` S)" and fe: "fechado api S"
    and i: "inv_dominio api S s" and ne: "borda s \<noteq> []" and c: "corpo s = Inr s'"
  shows "inv_dominio api S s' \<and> Suc (medida api S s') = medida api S s"
proof -
  from corpo_continua [OF u ne c] obtain n resto acs ord where
    b: "borda s = n # resto \<and> ord = sorted_acao acs \<or> borda s = resto @ [n] \<and> ord = sorted_acao_reverse acs"
    and a: "acoes_de api (estado n) = Inr acs"
    and s': "s' = \<lparr>borda = resto @ novos api n ord (explorado s),
                    explorado = explorado s \<union> chaves api acs,
                    criados = criados s + length acs,
                    retirados = retirados s + 1\<rparr>"
    by blast
  let ?nv = "novos api n ord (explorado s)"
  from b have lb: "length (borda s) = Suc (length resto)"
    and sb: "set (borda s) = insert n (set resto)"
    and so: "set ord = set acs" and co: "chaves api ord = chaves api acs"
    by (auto simp: set_sorted_acao set_sorted_acao_reverse chaves_sorted)
  from i sb have nS: "estado n \<in> S" and rS: "estado ` set resto \<subseteq> S"
    and eS: "explorado s \<subseteq> str_de api ` S"
    by (auto simp: inv_dominio_def)
  from fechado_chaves [OF fe nS a] have aS: "fst ` set acs \<subseteq> S"
    and cS: "chaves api acs \<subseteq> str_de api ` S" by simp_all
  have "estado c \<in> S" if "c \<in> set ?nv" for c
  proof -
    from novos_filho [OF that] have "(estado c, acao c) \<in> set acs" by (simp add: so)
    then have "estado c \<in> fst ` set acs" by force
    with aS show ?thesis by blast
  qed
  with rS eS cS have 1: "inv_dominio api S s'"
    by (auto simp: inv_dominio_def s')
  have "card (str_de api ` S - (explorado s \<union> chaves api acs)) + length ?nv
          = card (str_de api ` S - explorado s)"
    using novos_medida [OF fin, of api ord "explorado s" n] cS by (simp add: co)
  then have 2: "Suc (medida api S s') = medida api S s"
    by (simp add: medida_def s' lb)
  from 1 2 show ?thesis ..
qed

lemma laco_termina:
  assumes u: "um_passo api corpo" and fin: "finite (str_de api ` S)" and fe: "fechado api S"
  shows "inv_dominio api S st \<Longrightarrow> medida api S st < k \<Longrightarrow> \<exists>r. laco corpo k st = Some r"
proof (induction k arbitrary: st)
  case 0
  then show ?case by simp
next
  case (Suc k)
  show ?case
  proof (cases "borda st = []")
    case True
    then show ?thesis by simp
  next
    case False
    show ?thesis
    proof (cases "corpo st")
      case (Inl x)
      with False show ?thesis by simp
    next
      case (Inr st')
      from dominio_passo [OF u fin fe Suc.prems(1) False Inr]
      have "inv_dominio api S st'" and "Suc (medida api S st') = medida api S st" by simp_all
      with Suc.prems(2) have "\<exists>r. laco corpo k st' = Some r"
        by (intro Suc.IH) simp_all
      with False Inr show ?thesis by simp
    qed
  qed
qed

lemma buscar_laco:
  "buscar k api ini tipo =
     (if tipo = ''largura'' then laco (corpo_largura api) k (variaveis_iniciais api ini)
      else if tipo = ''profundidade'' then laco (corpo_profundidade api) k (variaveis_iniciais api ini)
      else Some (Nenhum, variaveis_iniciais api ini))"
  by (simp add: buscar_def variaveis_iniciais_def Nodo_init_def)

lemma buscar_retorna:
  assumes fin: "finite (str_de api ` S)" and fe: "fechado api S" and ini: "inicio \<in> S"
    and k: "card (str_de api ` S) < combustivel"
  shows "\<exists>r st. buscar combustivel api inicio tipo_busca = Some (r, st)"
proof -
  have m: "medida api S (variaveis_iniciais api inicio) < combustivel"
    using medida_inicial [OF fin ini] k by simp
  have l: "\<exists>r. laco corpo combustivel (variaveis_iniciais api inicio) = Some r"
    if "um_passo api corpo" for corpo
    using laco_termina [OF that fin fe inv_dominio_inicial [OF ini] m] .
  have "\<exists>x. buscar combustivel api inicio tipo_busca = Some x"
    using l [of "corpo_largura api"] l [of "corpo_profundidade api"]
    by (simp add: buscar_laco um_passo_def)
  then show ?thesis by auto
qed

lemma inv_ambos_passo:
  assumes u: "um_passo api corpo" and fin: "finite (str_de api ` S)" and fe: "fechado api S"
    and i: "inv_dominio api S s \<and> inv_contagem api s" and ne: "borda s \<noteq> []" and c: "corpo s = Inr s'"
  shows "inv_dominio api S s' \<and> inv_contagem api s'"
  using dominio_passo [OF u fin fe _ ne c] inv_contagem_passo [OF u _ ne c] i by blast

lemma buscar_final:
  assumes fin: "finite (str_de api ` S)" and fe: "fechado api S" and ini: "inicio \<in> S"
    and b: "buscar combustivel api inicio tipo_busca = Some (r, st)"
  shows "(r = Nenhum \<and> st = variaveis_iniciais api inicio
            \<and> tipo_busca \<noteq> ''largura'' \<and> tipo_busca \<noteq> ''profundidade'')
         \<or> (inv_dominio api S st \<and> inv_contagem api st \<and> borda st = [] \<and> r = Nenhum)
         \<or> (\<exists>n. estado n \<in> S \<and> inv_dominio api S st \<and> inv_contagem api st
              \<and> (objetivo_de api (estado n) = Inr True \<and> r = Caminho (caminho n)
                 \<or> (\<exists>e. r = Levantou e \<and> (objetivo_de api (estado n) = Inl e
                       \<or> objetivo_de api (estado n) = Inr False \<and> acoes_de api (estado n) = Inl e))))"
proof -
  let ?I = "\<lambda>s. inv_dominio api S s \<and> inv_contagem api s"
  have i0: "?I (variaveis_iniciais api inicio)"
    by (simp add: inv_dominio_inicial [OF ini] inv_contagem_inicial)
  have "(r = Nenhum \<and> st = variaveis_iniciais api inicio
            \<and> tipo_busca \<noteq> ''largura'' \<and> tipo_busca \<noteq> ''profundidade'')
         \<or> (\<exists>s. ?I s \<and> borda s = [] \<and> r = Nenhum \<and> st = s)
         \<or> (\<exists>corpo s. um_passo api corpo \<and> ?I s \<and> borda s \<noteq> [] \<and> corpo s = Inl (r, st))"
    by (rule buscar_inv [where I = ?I, OF b i0]) (rule inv_ambos_passo [OF _ fin fe])
  then consider
    (a) "r = Nenhum \<and> st = variaveis_iniciais api inicio
            \<and> tipo_busca \<noteq> ''largura'' \<and> tipo_busca \<noteq> ''profundidade''"
    | (b) "?I st \<and> borda st = [] \<and> r = Nenhum"
    | (c) corpo s where "um_passo api corpo" "?I s" "borda s \<noteq> []" "corpo s = Inl (r, st)"
    by blast
  then show ?thesis
  proof cases
    case a
    then show ?thesis by blast
  next
    case b
    then show ?thesis by blast
  next
    case c
    from corpo_termina [OF c(1,3,4)] obtain n resto where
      bd: "borda s = n # resto \<or> borda s = resto @ [n]"
      and st: "st = s\<lparr>borda := resto, retirados := retirados s + 1\<rparr>"
      and r: "objetivo_de api (estado n) = Inr True \<and> r = Caminho (caminho n)
              \<or> (\<exists>e. r = Levantou e \<and> (objetivo_de api (estado n) = Inl e
                    \<or> objetivo_de api (estado n) = Inr False \<and> acoes_de api (estado n) = Inl e))"
      by blast
    from bd c(2) have nS: "estado n \<in> S" by (auto simp: inv_dominio_def)
    from bd c(2) have "inv_dominio api S st" by (auto simp: inv_dominio_def st)
    moreover from bd c(2) have "inv_contagem api st" by (auto simp: inv_contagem_def st)
    ultimately show ?thesis using nS r by blast
  qed
qed

section \<open>The boards of the puzzle form a closed set\<close>

lemma item_dentro: "0 \<le> i \<Longrightarrow> i < int (length xs) \<Longrightarrow> item xs i = Inr (xs ! nat i)"
  by (simp add: item_def indice_def)

lemma atribuir_dentro:
  "0 \<le> i \<Longrightarrow> i < int (length xs) \<Longrightarrow> atribuir xs i v = Inr (xs[nat i := v])"
  by (simp add: atribuir_def indice_def)

lemma copiar_id: "copiar t = t"
  by (simp add: copiar_def)

lemma tabuleiros_linha:
  "t \<in> tabuleiros V \<Longrightarrow> k < 3 \<Longrightarrow> length (t ! k) = 3 \<and> set (t ! k) \<subseteq> V"
  by (simp add: tabuleiros_def)

lemma celula_dentro:
  assumes "t \<in> tabuleiros V" and "na_tabela (l, c)"
  shows "celula t l c = Inr (t ! nat l ! nat c) \<and> t ! nat l ! nat c \<in> V"
proof -
  from assms(2) have l: "0 \<le> l" "l < 3" and c: "0 \<le> c" "c < 3" by (simp_all add: na_tabela_def)
  from assms(1) have lt: "length t = 3" by (simp add: tabuleiros_def)
  from l have nl: "nat l < 3" by simp
  from tabuleiros_linha [OF assms(1) nl] have ll: "length (t ! nat l) = 3"
    and sv: "set (t ! nat l) \<subseteq> V" by simp_all
  from c ll have "t ! nat l ! nat c \<in> set (t ! nat l)" by simp
  with sv have "t ! nat l ! nat c \<in> V" by blast
  moreover have "celula t l c = Inr (t ! nat l ! nat c)"
    using l c lt ll by (simp add: celula_def item_dentro)
  ultimately show ?thesis by simp
qed

lemma atribuir_celula_dentro:
  assumes "t \<in> tabuleiros V" and "na_tabela (l, c)" and "v \<in> V"
  shows "atribuir_celula t l c v = Inr (t[nat l := (t ! nat l)[nat c := v]])
         \<and> t[nat l := (t ! nat l)[nat c := v]] \<in> tabuleiros V"
proof -
  from assms(2) have l: "0 \<le> l" "l < 3" and c: "0 \<le> c" "c < 3" by (simp_all add: na_tabela_def)
  from assms(1) have lt: "length t = 3" by (simp add: tabuleiros_def)
  from l have nl: "nat l < 3" by simp
  from tabuleiros_linha [OF assms(1) nl] have ll: "length (t ! nat l) = 3"
    and sv: "set (t ! nat l) \<subseteq> V" by simp_all
  have 1: "atribuir_celula t l c v = Inr (t[nat l := (t ! nat l)[nat c := v]])"
    using l c lt ll by (simp add: atribuir_celula_def indice_def atribuir_dentro)
  have "set ((t ! nat l)[nat c := v]) \<subseteq> V"
    using sv assms(3) set_update_subset_insert [of "t ! nat l" "nat c" v] by blast
  then have 2: "t[nat l := (t ! nat l)[nat c := v]] \<in> tabuleiros V"
    using assms(1) ll set_update_subset_insert [of t "nat l" "(t ! nat l)[nat c := v]"]
    by (auto simp: tabuleiros_def)
  from 1 2 show ?thesis ..
qed

lemma mover_dentro:
  assumes t: "t \<in> tabuleiros V" and o: "na_tabela origem" and d: "na_tabela destino"
  shows "\<exists>t'. mover t origem destino = Inr t' \<and> t' \<in> tabuleiros V"
proof -
  obtain i j where oo: "origem = (i, j)" by (cases origem)
  obtain r c where dd: "destino = (r, c)" by (cases destino)
  from celula_dentro [OF t d [unfolded dd]] obtain x where
    x: "celula t r c = Inr x" "x \<in> V" by blast
  from celula_dentro [OF t o [unfolded oo]] obtain y where
    y: "celula t i j = Inr y" "y \<in> V" by blast
  from atribuir_celula_dentro [OF t o [unfolded oo] x(2)] obtain t1 where
    t1: "atribuir_celula t i j x = Inr t1" "t1 \<in> tabuleiros V" by blast
  from atribuir_celula_dentro [OF t1(2) d [unfolded dd] y(2)] obtain t2 where
    t2: "atribuir_celula t1 r c y = Inr t2" "t2 \<in> tabuleiros V" by blast
  show ?thesis
    by (simp add: mover_def oo dd copiar_id x y t1 t2)
qed

lemma acoes_direcoes_dentro:
  assumes t: "t \<in> tabuleiros V" and ij: "na_tabela ij"
  shows "\<forall>m \<in> fst ` set cm. na_tabela (fst m) \<and> na_tabela (snd m) \<Longrightarrow>
         \<exists>cm2. acoes_direcoes t ij ds cm = Inr cm2
            \<and> (\<forall>m \<in> fst ` set cm2. na_tabela (fst m) \<and> na_tabela (snd m))"
proof (induction ds arbitrary: cm)
  case Nil
  then show ?case by simp
next
  case (Cons d ds)
  obtain rot l c where d: "d = (rot, (l, c))" by (cases d) auto
  show ?case
  proof (cases "l \<ge> 0 \<and> c \<ge> 0 \<and> l < tamanho \<and> c < tamanho")
    case False
    then have "acoes_direcoes t ij (d # ds) cm = acoes_direcoes t ij ds cm"
      by (simp only: d acoes_direcoes.simps if_False)
    with Cons.IH [OF Cons.prems] show ?thesis by simp
  next
    case True
    then have n: "na_tabela (l, c)" by (simp add: na_tabela_def tamanho_def)
    from t have lt: "length t = 3" by (simp add: tabuleiros_def)
    from True have nl: "nat l < 3" by (auto simp: tamanho_def)
    from tabuleiros_linha [OF t nl] have ll: "length (t ! nat l) = 3" by simp
    have i1: "item t l = Inr (t ! nat l)"
      using True lt by (simp add: item_dentro tamanho_def)
    have i2: "item (t ! nat l) c = Inr (t ! nat l ! nat c)"
      using True ll by (simp add: item_dentro tamanho_def)
    have "\<forall>m \<in> fst ` set (cm @ [((ij, (l, c)), rot)]). na_tabela (fst m) \<and> na_tabela (snd m)"
      using Cons.prems n ij by auto
    moreover have "acoes_direcoes t ij (d # ds) cm =
        (if t ! nat l ! nat c = 9 then acoes_direcoes t ij ds (cm @ [((ij, (l, c)), rot)])
         else acoes_direcoes t ij ds cm)"
      using True by (simp only: d acoes_direcoes.simps if_True i1 i2 sum.case simp_thms)
    ultimately show ?thesis
      using Cons.IH [of "cm @ [((ij, (l, c)), rot)]"] Cons.IH [OF Cons.prems]
      by (cases "t ! nat l ! nat c = 9") simp_all
  qed
qed

lemma acoes_celulas_dentro:
  assumes t: "t \<in> tabuleiros V"
  shows "\<forall>p \<in> set ijs. na_tabela p \<Longrightarrow>
         \<forall>m \<in> fst ` set cm. na_tabela (fst m) \<and> na_tabela (snd m) \<Longrightarrow>
         \<exists>cm2. acoes_celulas t ijs cm = Inr cm2
            \<and> (\<forall>m \<in> fst ` set cm2. na_tabela (fst m) \<and> na_tabela (snd m))"
proof (induction ijs arbitrary: cm)
  case Nil
  then show ?case by simp
next
  case (Cons p ijs)
  obtain i j where p: "p = (i, j)" by (cases p)
  from Cons.prems(1) have n: "na_tabela (i, j)" by (simp add: p)
  from acoes_direcoes_dentro [OF t n Cons.prems(2), of "direcoes i j"] obtain cm1 where
    c1: "acoes_direcoes t (i, j) (direcoes i j) cm = Inr cm1"
    and n1: "\<forall>m \<in> fst ` set cm1. na_tabela (fst m) \<and> na_tabela (snd m)" by blast
  from Cons.prems(1) have "\<forall>p \<in> set ijs. na_tabela p" by simp
  from Cons.IH [OF this n1] show ?case by (simp add: p c1)
qed

lemma acoes_dentro:
  assumes "t \<in> tabuleiros V"
  shows "\<exists>ms. acoes t = Inr ms \<and> (\<forall>m \<in> fst ` set ms. na_tabela (fst m) \<and> na_tabela (snd m))"
  unfolding acoes_def
  by (rule acoes_celulas_dentro [OF assms]) (simp_all add: na_tabela_def)

lemma chamar_dentro:
  assumes t: "t \<in> tabuleiros V"
  shows "\<forall>m \<in> fst ` set ms. na_tabela (fst m) \<and> na_tabela (snd m) \<Longrightarrow>
         \<exists>rs. chamar t ms = Inr rs \<and> fst ` set rs \<subseteq> tabuleiros V"
proof (induction ms)
  case Nil
  then show ?case by simp
next
  case (Cons m ms)
  obtain origem destino rot where m: "m = ((origem, destino), rot)" by (cases m) auto
  from Cons.prems have o: "na_tabela origem" and d: "na_tabela destino" by (simp_all add: m)
  from mover_dentro [OF t o d] obtain t' where t': "mover t origem destino = Inr t'" "t' \<in> tabuleiros V"
    by blast
  from Cons.prems have "\<forall>m \<in> fst ` set ms. na_tabela (fst m) \<and> na_tabela (snd m)" by simp
  from Cons.IH [OF this] obtain rs where "chamar t ms = Inr rs" "fst ` set rs \<subseteq> tabuleiros V"
    by blast
  with t' show ?case by (simp add: m)
qed

lemma QuebraCabeca_acoes_dentro:
  assumes "t \<in> tabuleiros V"
  shows "\<exists>rs. acoes_de QuebraCabeca t = Inr rs \<and> fst ` set rs \<subseteq> tabuleiros V"
proof -
  from acoes_dentro [OF assms] obtain ms where
    ms: "acoes t = Inr ms" "\<forall>m \<in> fst ` set ms. na_tabela (fst m) \<and> na_tabela (snd m)" by blast
  from chamar_dentro [OF assms ms(2)] ms(1) show ?thesis
    by (simp add: QuebraCabeca_def)
qed

lemma tabuleiros_fechado: "fechado QuebraCabeca (tabuleiros V)"
  unfolding fechado_def
proof
  fix t assume "t \<in> tabuleiros V"
  from QuebraCabeca_acoes_dentro [OF this] 
  show "case acoes_de QuebraCabeca t of Inl e \<Rightarrow> True | Inr acs \<Rightarrow> fst ` set acs \<subseteq> tabuleiros V"
    by auto
qed

lemma tabuleiros_retangular: "t \<in> tabuleiros V \<Longrightarrow> retangular t"
  by (cases t) (auto simp: tabuleiros_def retangular_def)

lemma tabuleiros_sem_falha: "sem_falha QuebraCabeca (tabuleiros V)"
  unfolding sem_falha_def
proof
  fix t assume t: "t \<in> tabuleiros V"
  have "\<exists>b. objetivo t = Inr b"
    using tabuleiros_retangular [OF t] by (simp add: objetivo_def Let_def)
  with QuebraCabeca_acoes_dentro [OF t]
  show "(case objetivo_de QuebraCabeca t of Inl e \<Rightarrow> False | Inr b \<Rightarrow> True)
      \<and> (case acoes_de QuebraCabeca t of Inl e \<Rightarrow> False | Inr acs \<Rightarrow> True)"
    by (auto simp: QuebraCabeca_def)
qed

lemma tabuleiros_finite: "finite V \<Longrightarrow> finite (tabuleiros V)"
proof -
  assume f: "finite V"
  have "finite {lin. set lin \<subseteq> V \<and> length lin = 3}" using f by (rule finite_lists_length_eq)
  then have "finite {t. set t \<subseteq> {lin. set lin \<subseteq> V \<and> length lin = 3} \<and> length t = 3}"
    by (rule finite_lists_length_eq)
  moreover have "tabuleiros V \<subseteq> {t. set t \<subseteq> {lin. set lin \<subseteq> V \<and> length lin = 3} \<and> length t = 3}"
    by (auto simp: tabuleiros_def)
  ultimately show ?thesis by (rule rev_finite_subset)
qed

lemma tabuleiros_forma:
  assumes "t \<in> tabuleiros V"
  obtains a b c d e f g h i where "t = [[a, b, c], [d, e, f], [g, h, i]]"
    and "{a, b, c, d, e, f, g, h, i} \<subseteq> V"
proof -
  have tres: "\<exists>x y z. xs = [x, y, z]" if "length xs = 3" for xs :: "'a list"
    using that by (auto simp: numeral_3_eq_3 length_Suc_conv)
  from assms have "length t = 3" by (simp add: tabuleiros_def)
  from tres [OF this] obtain r1 r2 r3 where t: "t = [r1, r2, r3]" by blast
  from assms t have l: "length r1 = 3" "length r2 = 3" "length r3 = 3"
    and s: "set r1 \<subseteq> V" "set r2 \<subseteq> V" "set r3 \<subseteq> V"
    by (simp_all add: tabuleiros_def)
  from tres [OF l(1)] tres [OF l(2)] tres [OF l(3)] obtain a b c d e f g h i where
    "r1 = [a, b, c]" "r2 = [d, e, f]" "r3 = [g, h, i]" by blast
  with t s that show thesis by simp
qed

section \<open>Termination and exhaustion of the frontier\<close>

text \<open>
  C7. Over a set of states closed under the actions and with finitely many keys (as the
  3 by 3 boards with cells from 1 to 9), \<open>buscar\<close> returns in every mode once the fuel
  exceeds the number of keys: each iteration either ends the call or lowers, by exactly
  one, the number of unexplored keys plus the length of the frontier. When it returns the
  set has one key for each node that was placed on the frontier, the frontier holds no
  key twice, and the loop took at most as many nodes from the frontier as there are keys.
\<close>

theorem buscar_termina:
  assumes fin: "finite (str_de api ` S)" and fe: "fechado api S" and ini: "inicio \<in> S"
    and k: "card (str_de api ` S) < combustivel"
  shows "\<exists>r st. buscar combustivel api inicio tipo_busca = Some (r, st)
           \<and> card (explorado st) = retirados st + length (borda st)
           \<and> distinct (map (\<lambda>n. str_de api (estado n)) (borda st))
           \<and> retirados st \<le> card (str_de api ` S)"
proof -
  from buscar_retorna [OF fin fe ini k] obtain r st where
    b: "buscar combustivel api inicio tipo_busca = Some (r, st)" by blast
  from buscar_final [OF fin fe ini b]
  have "st = variaveis_iniciais api inicio \<or> inv_dominio api S st \<and> inv_contagem api st"
    by blast
  then have i: "inv_dominio api S st \<and> inv_contagem api st"
    using inv_dominio_inicial [OF ini] inv_contagem_inicial by auto
  then have c: "card (explorado st) = retirados st + length (borda st)"
    and d: "distinct (map (chave_nodo api) (borda st))"
    and e: "explorado st \<subseteq> str_de api ` S"
    by (simp_all add: inv_contagem_def inv_dominio_def)
  from e fin have "card (explorado st) \<le> card (str_de api ` S)" by (rule card_mono [rotated])
  with c have "retirados st \<le> card (str_de api ` S)" by simp
  with b c d show ?thesis by (simp add: chave_nodo_def [abs_def])
qed

lemma estado_inicial_tabuleiro: "estado_inicial \<in> tabuleiros {1..9}"
  by (simp add: estado_inicial_def tabuleiros_def)

theorem buscar_termina_witness:
  "\<exists>r st. buscar (Suc (card (str_de QuebraCabeca ` tabuleiros {1..9}))) QuebraCabeca
            estado_inicial ''profundidade'' = Some (r, st)
         \<and> retirados st \<le> card (str_de QuebraCabeca ` tabuleiros {1..9})"
proof -
  have "finite (str_de QuebraCabeca ` tabuleiros {1..9})"
    by (intro finite_imageI tabuleiros_finite) simp
  from buscar_termina [OF this tabuleiros_fechado estado_inicial_tabuleiro lessI]
  show ?thesis by blast
qed

lemma sem_falha_D:
  assumes "sem_falha api S" and "s \<in> S"
  shows "(\<exists>b. objetivo_de api s = Inr b) \<and> (\<exists>acs. acoes_de api s = Inr acs)"
proof -
  from assms have "(case objetivo_de api s of Inl e \<Rightarrow> False | Inr b \<Rightarrow> True)"
    and "(case acoes_de api s of Inl e \<Rightarrow> False | Inr acs \<Rightarrow> True)"
    by (simp_all add: sem_falha_def)
  then show ?thesis
    by (cases "objetivo_de api s"; cases "acoes_de api s") simp_all
qed

text \<open>
  C8. Over such a set on which neither the goal test nor the actions raise, \<open>buscar\<close>
  in mode \<open>'largura'\<close> or \<open>'profundidade'\<close> returns either a path that ends in a
  goal state or \<open>None\<close> with an empty frontier, and never raises; when no state of the
  set is a goal it returns \<open>None\<close> with an empty frontier.
\<close>

theorem buscar_sem_objetivo:
  assumes fin: "finite (str_de api ` S)" and fe: "fechado api S" and ini: "inicio \<in> S"
    and k: "card (str_de api ` S) < combustivel"
    and sf: "sem_falha api S"
    and modo: "tipo_busca = ''largura'' \<or> tipo_busca = ''profundidade''"
  shows "\<exists>r st. buscar combustivel api inicio tipo_busca = Some (r, st)
           \<and> (r = Nenhum \<and> borda st = []
              \<or> (\<exists>n. r = Caminho (caminho n) \<and> estado n \<in> S \<and> objetivo_de api (estado n) = Inr True))
           \<and> ((\<forall>s \<in> S. objetivo_de api s = Inr False) \<longrightarrow> r = Nenhum \<and> borda st = [])"
proof -
  from buscar_retorna [OF fin fe ini k] obtain r st where
    b: "buscar combustivel api inicio tipo_busca = Some (r, st)" by blast
  from buscar_final [OF fin fe ini b] modo consider
    (vazia) "borda st = []" "r = Nenhum"
    | (fim) n where "estado n \<in> S"
        "objetivo_de api (estado n) = Inr True \<and> r = Caminho (caminho n)
         \<or> (\<exists>e. r = Levantou e \<and> (objetivo_de api (estado n) = Inl e
                \<or> objetivo_de api (estado n) = Inr False \<and> acoes_de api (estado n) = Inl e))"
    by blast
  then show ?thesis
  proof cases
    case vazia
    with b show ?thesis by simp
  next
    case fim
    from sem_falha_D [OF sf fim(1)]
    have "\<forall>e. objetivo_de api (estado n) \<noteq> Inl e" "\<forall>e. acoes_de api (estado n) \<noteq> Inl e"
      by auto
    with fim(2) have o: "objetivo_de api (estado n) = Inr True" and r: "r = Caminho (caminho n)"
      by auto
    from o fim(1) have "\<not> (\<forall>s \<in> S. objetivo_de api s = Inr False)" by force
    with b o r fim(1) show ?thesis by blast
  qed
qed

lemma tabuleiros_1_9_sem_objetivo:
  assumes "t \<in> tabuleiros {1, 9}"
  shows "objetivo_de QuebraCabeca t = Inr False"
proof -
  from assms obtain a b c d e f g h i where t: "t = [[a, b, c], [d, e, f], [g, h, i]]"
    and v: "{a, b, c, d, e, f, g, h, i} \<subseteq> {1, 9}"
    by (rule tabuleiros_forma)
  from v have "a + b + c \<noteq> 15" by auto
  then show ?thesis by (simp add: QuebraCabeca_def t objetivo_3x3)
qed

theorem buscar_sem_objetivo_witness:
  "\<exists>st. buscar (Suc (card (str_de QuebraCabeca ` tabuleiros {1, 9}))) QuebraCabeca
            [[9, 1, 1], [1, 1, 1], [1, 1, 1]] ''largura'' = Some (Nenhum, st)
         \<and> borda st = []"
proof -
  have f: "finite (str_de QuebraCabeca ` tabuleiros {1, 9})"
    by (intro finite_imageI tabuleiros_finite) simp
  have i: "[[9, 1, 1], [1, 1, 1], [1, 1, 1]] \<in> tabuleiros {1, 9}"
    by (simp add: tabuleiros_def)
  have n: "\<forall>s \<in> tabuleiros {1, 9}. objetivo_de QuebraCabeca s = Inr False"
    using tabuleiros_1_9_sem_objetivo by blast
  from buscar_sem_objetivo [OF f tabuleiros_fechado i lessI tabuleiros_sem_falha, of "''largura''"] n
  show ?thesis by auto
qed

section \<open>The source board is not changed by a move\<close>

lemma ler_inteiros_Inr: "ler_inteiros h a = Inr xs \<longleftrightarrow> a < length h \<and> h ! a = Lista_int xs"
  by (auto simp: ler_inteiros_def ler_def split: sum.splits objeto.splits if_splits)

lemma ler_refs_Inr: "ler_refs h a = Inr refs \<longleftrightarrow> a < length h \<and> h ! a = Lista_ref refs"
  by (auto simp: ler_refs_def ler_def split: sum.splits objeto.splits if_splits)

lemma ler_tabela_Inr: "ler_tabela h q = Inr t \<longleftrightarrow> q < length h \<and> h ! q = Objeto_QuebraCabeca t"
  by (auto simp: ler_tabela_def ler_def split: sum.splits objeto.splits if_splits)

lemma linhas_de_Inr: "linhas_de h refs = Inr t \<longleftrightarrow> map (ler_inteiros h) refs = map Inr t"
proof (induction refs arbitrary: t)
  case Nil
  show ?case by auto
next
  case (Cons a refs)
  show ?case
  proof (cases "ler_inteiros h a")
    case (Inl e)
    then show ?thesis by (cases t) auto
  next
    case (Inr xs)
    show ?thesis
    proof (cases "linhas_de h refs")
      case (Inl e)
      with Cons.IH have "\<And>t'. map (ler_inteiros h) refs \<noteq> map Inr t'" by auto
      with Inl Inr show ?thesis by (cases t) auto
    next
      case r: (Inr t')
      with Cons.IH [of t'] have m: "map (ler_inteiros h) refs = map Inr t'" by simp
      have "map Inr t' = (map Inr t'' :: (erro + int list) list) \<longleftrightarrow> t' = t''" for t''
        by (simp add: inj_map_eq_map)
      with Inr r m show ?thesis by (cases t) auto
    qed
  qed
qed

lemma preserva_refl: "preserva (length h) h h"
  by (simp add: preserva_def)

lemma preserva_trans: "preserva n h h1 \<Longrightarrow> preserva n h1 h2 \<Longrightarrow> preserva n h h2"
  by (simp add: preserva_def)

lemma preserva_menor: "preserva n h h' \<Longrightarrow> m \<le> n \<Longrightarrow> preserva m h h'"
  by (simp add: preserva_def)

lemma preserva_alocar: "n \<le> length h \<Longrightarrow> preserva n h (fst (alocar h ob))"
  by (simp add: preserva_def alocar_def nth_append)

lemma preserva_update: "n \<le> a \<Longrightarrow> n \<le> length h \<Longrightarrow> preserva n h (h[a := ob])"
  by (simp add: preserva_def)

lemma preserva_ler:
  "preserva n h h' \<Longrightarrow> n = length h \<Longrightarrow>
     (ler_inteiros h a = Inr xs \<longrightarrow> ler_inteiros h' a = Inr xs)
     \<and> (ler_refs h a = Inr refs \<longrightarrow> ler_refs h' a = Inr refs)
     \<and> (ler_tabela h a = Inr t \<longrightarrow> ler_tabela h' a = Inr t)"
  by (auto simp: preserva_def ler_inteiros_Inr ler_refs_Inr ler_tabela_Inr)

lemma preserva_tabela_de:
  assumes p: "preserva (length h) h h'" and t: "tabela_de h q = Inr t"
  shows "tabela_de h' q = Inr t"
proof -
  from t obtain tb refs where 1: "ler_tabela h q = Inr tb" and 2: "ler_refs h tb = Inr refs"
    and 3: "linhas_de h refs = Inr t"
    by (auto simp: tabela_de_def split: sum.splits)
  from 3 have m: "map (ler_inteiros h) refs = map Inr t" by (simp add: linhas_de_Inr)
  have "map (ler_inteiros h') refs = map Inr t"
  proof (rule nth_equalityI)
    show "length (map (ler_inteiros h') refs) = length (map Inr t)"
      using m by (metis length_map)
  next
    fix k assume "k < length (map (ler_inteiros h') refs)"
    then have k: "k < length refs" by simp
    from m have lt: "length refs = length t" by (metis length_map)
    from m k have "ler_inteiros h (refs ! k) = Inr (t ! k)"
      by (metis lt nth_map)
    with preserva_ler [OF p refl] have "ler_inteiros h' (refs ! k) = Inr (t ! k)" by blast
    with k lt show "map (ler_inteiros h') refs ! k = map Inr t ! k" by simp
  qed
  then have "linhas_de h' refs = Inr t" by (simp add: linhas_de_Inr)
  with preserva_ler [OF p refl] 1 2 show ?thesis
    by (auto simp: tabela_de_def)
qed

lemma copiar_linhas_copia:
  "copia_de h n0 nova refs t0 \<Longrightarrow> \<forall>a \<in> set linhas. a < n0 \<Longrightarrow>
   map (ler_inteiros h) linhas = map Inr t \<Longrightarrow>
   \<exists>h' refs'. copiar_linhas h nova linhas = (h', Inr ()) \<and> preserva n0 h h'
      \<and> copia_de h' n0 nova refs' (t0 @ t)"
proof (induction linhas arbitrary: h refs t0 t)
  case Nil
  then have "n0 \<le> length h" by (simp add: copia_de_def)
  with Nil show ?case by (auto simp: preserva_def)
next
  case (Cons lin resto)
  from Cons.prems(3) obtain xs t' where t: "t = xs # t'"
    and lx: "ler_inteiros h lin = Inr xs"
    and lr: "map (ler_inteiros h) resto = map Inr t'"
    by (cases t) auto
  from Cons.prems(1) have n0: "n0 \<le> nova" and nv: "nova < length h"
    and hn: "h ! nova = Lista_ref refs" and d: "distinct refs" and nn: "nova \<notin> set refs"
    and rg: "\<forall>a \<in> set refs. n0 \<le> a \<and> a < length h"
    and mp: "map (ler_inteiros h) refs = map Inr t0"
    by (simp_all add: copia_de_def)
  define h2 where "h2 = (h @ [Lista_int xs])[nova := Lista_ref (refs @ [length h])]"
  have lh2: "length h2 = Suc (length h)" by (simp add: h2_def)
  have same: "h2 ! a = h ! a" if "a < length h" "a \<noteq> nova" for a
    using that by (simp add: h2_def nth_append)
  have rd: "ler_inteiros h2 a = ler_inteiros h a" if "a < length h" "a \<noteq> nova" for a
    using that same [OF that] by (simp add: ler_inteiros_def ler_def lh2)
  have step: "copiar_linhas h nova (lin # resto) = copiar_linhas h2 nova resto"
    using nv hn by (simp add: lx alocar_def ler_refs_def ler_def nth_append h2_def)
  have novo: "ler_inteiros h2 (length h) = Inr xs"
    using nv by (simp add: ler_inteiros_Inr lh2 h2_def)
  have m1: "map (ler_inteiros h2) refs = map Inr t0"
  proof -
    have "map (ler_inteiros h2) refs = map (ler_inteiros h) refs"
      using rg nn by (intro map_cong refl rd) auto
    with mp show ?thesis by simp
  qed
  have c2: "copia_de h2 n0 nova (refs @ [length h]) (t0 @ [xs])"
    unfolding copia_de_def
    using n0 nv d nn rg m1 novo by (auto simp: lh2 h2_def)
  have r2: "\<forall>a \<in> set resto. a < n0" using Cons.prems(2) by simp
  have m2: "map (ler_inteiros h2) resto = map Inr t'"
  proof -
    have "map (ler_inteiros h2) resto = map (ler_inteiros h) resto"
      using r2 n0 nv by (intro map_cong refl rd) auto
    with lr show ?thesis by simp
  qed
  from Cons.IH [OF c2 r2 m2] obtain h' refs' where
    r: "copiar_linhas h2 nova resto = (h', Inr ())" and p: "preserva n0 h2 h'"
    and c: "copia_de h' n0 nova refs' ((t0 @ [xs]) @ t')"
    by blast
  have "preserva n0 h h2"
    using n0 nv by (auto simp: preserva_def lh2 same)
  from preserva_trans [OF this p] r c show ?case
    unfolding step t by auto
qed

lemma copiar_mem_copia:
  assumes "tabela_de h q = Inr t"
  shows "\<exists>h1 copia nova refs. copiar_mem h q = (h1, Inr copia) \<and> preserva (length h) h h1
      \<and> copia_de h1 (length h) nova refs t \<and> length h \<le> copia
      \<and> ler_tabela h1 copia = Inr nova \<and> copia \<notin> set refs"
proof -
  from assms obtain tb linhas where 1: "ler_tabela h q = Inr tb" and 2: "ler_refs h tb = Inr linhas"
    and 3: "map (ler_inteiros h) linhas = map Inr t"
    by (auto simp: tabela_de_def linhas_de_Inr split: sum.splits)
  define h0 where "h0 = h @ [Lista_ref []]"
  have p0: "preserva (length h) h h0" by (simp add: preserva_def h0_def nth_append)
  from preserva_ler [OF p0 refl] 1 2 have q1: "ler_tabela h0 q = Inr tb"
    and q2: "ler_refs h0 tb = Inr linhas" by blast+
  have old: "a < length h" if "a \<in> set linhas" for a
  proof -
    from that obtain k where k: "k < length linhas" "linhas ! k = a" by (auto simp: in_set_conv_nth)
    from 3 have "length linhas = length t" by (metis length_map)
    with 3 k have "ler_inteiros h a = Inr (t ! k)" by (metis nth_map)
    then show ?thesis by (simp add: ler_inteiros_Inr)
  qed
  have q3: "map (ler_inteiros h0) linhas = map Inr t"
  proof -
    have "ler_inteiros h0 a = ler_inteiros h a" if "a \<in> set linhas" for a
      using old [OF that] by (simp add: ler_inteiros_def ler_def h0_def nth_append)
    then have "map (ler_inteiros h0) linhas = map (ler_inteiros h) linhas"
      by (intro map_cong refl)
    with 3 show ?thesis by simp
  qed
  have c0: "copia_de h0 (length h) (length h) [] []"
    by (simp add: copia_de_def h0_def)
  from copiar_linhas_copia [OF c0 _ q3] old obtain h2 refs where
    r: "copiar_linhas h0 (length h) linhas = (h2, Inr ())" and p2: "preserva (length h) h0 h2"
    and c2: "copia_de h2 (length h) (length h) refs t"
    by auto
  define h3 where "h3 = h2 @ [Objeto_QuebraCabeca (length h)]"
  from c2 have lt: "length h < length h2" and rg: "\<forall>a \<in> set refs. a < length h2"
    by (simp_all add: copia_de_def)
  have rd: "map (ler_inteiros h3) refs = map (ler_inteiros h2) refs"
    using rg by (intro map_cong refl) (auto simp: ler_inteiros_def ler_def h3_def nth_append)
  have c3: "copia_de h3 (length h) (length h) refs t"
    using c2 rd unfolding copia_de_def by (auto simp: h3_def nth_append)
  have p3: "preserva (length h) h h3"
  proof -
    have "preserva (length h) h2 h3" using lt by (simp add: preserva_def h3_def nth_append)
    with p0 p2 show ?thesis by (blast intro: preserva_trans)
  qed
  have e: "copiar_mem h q = (h3, Inr (length h2))"
    by (simp add: copiar_mem_def alocar_def h0_def [symmetric] q1 q2 r h3_def)
  have "ler_tabela h3 (length h2) = Inr (length h)"
    by (simp add: ler_tabela_Inr h3_def)
  moreover have "length h2 \<notin> set refs" using rg by auto
  ultimately show ?thesis using e p3 c3 lt by auto
qed

lemma celula_copia:
  assumes c: "copia_de h n0 nova refs t" and o: "ler_tabela h copia = Inr nova"
  shows "ler_celula h copia l c = celula t l c"
proof -
  from c have r: "ler_refs h nova = Inr refs" and m: "map (ler_inteiros h) refs = map Inr t"
    by (simp_all add: copia_de_def ler_refs_Inr)
  from m have len: "length refs = length t" by (metis length_map)
  show ?thesis
  proof (cases "indice (length t) l")
    case (Inl e)
    then show ?thesis by (simp add: ler_celula_def celula_def o r item_def len)
  next
    case (Inr k)
    then have k: "k < length t" by (auto simp: indice_def split: if_splits)
    with m len have "ler_inteiros h (refs ! k) = Inr (t ! k)" by (metis nth_map)
    with Inr show ?thesis by (simp add: ler_celula_def celula_def o r item_def len)
  qed
qed

lemma escrever_copia:
  assumes c: "copia_de h n0 nova refs t" and o: "ler_tabela h copia = Inr nova"
    and cn: "copia \<notin> set refs"
  shows "case atribuir_celula t l c v of
           Inl e \<Rightarrow> escrever_celula h copia l c v = Inl e
         | Inr t2 \<Rightarrow> (\<exists>h2. escrever_celula h copia l c v = Inr h2 \<and> preserva n0 h h2
              \<and> copia_de h2 n0 nova refs t2 \<and> ler_tabela h2 copia = Inr nova)"
proof -
  from c have r: "ler_refs h nova = Inr refs" and m: "map (ler_inteiros h) refs = map Inr t"
    and n0: "n0 \<le> nova" and nv: "nova < length h" and hn: "h ! nova = Lista_ref refs"
    and d: "distinct refs" and nn: "nova \<notin> set refs"
    and rg: "\<forall>a \<in> set refs. n0 \<le> a \<and> a < length h"
    by (simp_all add: copia_de_def ler_refs_Inr)
  from m have len: "length refs = length t" by (metis length_map)
  show ?thesis
  proof (cases "indice (length t) l")
    case (Inl e)
    then show ?thesis by (simp add: escrever_celula_def atribuir_celula_def o r item_def len)
  next
    case (Inr k)
    then have k: "k < length t" by (auto simp: indice_def split: if_splits)
    with m len have lk: "ler_inteiros h (refs ! k) = Inr (t ! k)" by (metis nth_map)
    show ?thesis
    proof (cases "atribuir (t ! k) c v")
      case (Inl e)
      with Inr lk show ?thesis
        by (simp add: escrever_celula_def atribuir_celula_def o r item_def len)
    next
      case a: (Inr xs')
      define h2 where "h2 = h[refs ! k := Lista_int xs']"
      have e: "escrever_celula h copia l c v = Inr h2"
        using Inr lk a by (simp add: escrever_celula_def o r item_def len h2_def)
      have v: "atribuir_celula t l c v = Inr (t[k := xs'])"
        using Inr a by (simp add: atribuir_celula_def)
      have rk: "refs ! k \<in> set refs" using k len by simp
      with rg have ak: "n0 \<le> refs ! k" "refs ! k < length h" by auto
      have p: "preserva n0 h h2"
        using ak n0 nv by (simp add: preserva_def h2_def)
      have "copia \<noteq> refs ! k" using cn rk by auto
      with o have o2: "ler_tabela h2 copia = Inr nova"
        by (simp add: ler_tabela_Inr h2_def)
      have m2: "map (ler_inteiros h2) refs = map Inr (t[k := xs'])"
      proof (rule nth_equalityI)
        show "length (map (ler_inteiros h2) refs) = length (map Inr (t[k := xs']))"
          by (simp add: len)
      next
        fix j assume "j < length (map (ler_inteiros h2) refs)"
        then have j: "j < length refs" by simp
        from m j len have lj: "ler_inteiros h (refs ! j) = Inr (t ! j)" by (metis nth_map)
        show "map (ler_inteiros h2) refs ! j = map Inr (t[k := xs']) ! j"
        proof (cases "j = k")
          case True
          with j len ak show ?thesis by (simp add: ler_inteiros_Inr h2_def)
        next
          case False
          with d j k len have "refs ! j \<noteq> refs ! k" by (simp add: nth_eq_iff_index_eq)
          with lj have "ler_inteiros h2 (refs ! j) = Inr (t ! j)"
            by (simp add: ler_inteiros_Inr h2_def)
          with False j len show ?thesis by simp
        qed
      qed
      have "nova \<noteq> refs ! k" using nn rk by auto
      with hn have hn2: "h2 ! nova = Lista_ref refs" by (simp add: h2_def)
      have "copia_de h2 n0 nova refs (t[k := xs'])"
        unfolding copia_de_def
        using n0 nv hn2 d nn rg m2 by (simp add: h2_def)
      with e v p o2 show ?thesis by simp
    qed
  qed
qed

lemma copia_tabela_de:
  assumes "copia_de h n0 nova refs t" and "ler_tabela h copia = Inr nova"
  shows "tabela_de h copia = Inr t \<and> ler_refs h nova = Inr refs \<and> n0 \<le> nova
         \<and> (\<forall>a \<in> set refs. n0 \<le> a)"
proof -
  from assms(1) have r: "ler_refs h nova = Inr refs" and n: "n0 \<le> nova"
    and g: "\<forall>a \<in> set refs. n0 \<le> a" and m: "linhas_de h refs = Inr t"
    by (simp_all add: copia_de_def ler_refs_Inr linhas_de_Inr)
  from assms(2) r m have "tabela_de h copia = Inr t" by (simp add: tabela_de_def)
  with r n g show ?thesis by simp
qed

text \<open>
  C9. For every store in which \<open>q\<close> is a \<open>QuebraCabeca\<close> with board \<open>t\<close>, and every
  move: after \<open>mover\<close> every object that existed before the call is the same, so \<open>q\<close>
  still has the board \<open>t\<close>, cell by cell; when the call returns, it returns a new object
  whose outer list and rows are all new objects and whose board is the one that
  \<open>mover\<close> computes on the value \<open>t\<close>; when it raises, so does \<open>mover\<close> on \<open>t\<close>.
\<close>

theorem mover_mem_preserva_origem:
  assumes t: "tabela_de h q = Inr t"
  shows "\<exists>h' r. mover_mem h q origem destino = (h', r)
      \<and> length h \<le> length h' \<and> (\<forall>a < length h. h' ! a = h ! a)
      \<and> tabela_de h' q = Inr t
      \<and> (case r of
            Inl e \<Rightarrow> mover t origem destino = Inl e
          | Inr q' \<Rightarrow>
              length h \<le> q'
              \<and> (\<exists>t'. mover t origem destino = Inr t' \<and> tabela_de h' q' = Inr t')
              \<and> (\<exists>nova refs. ler_tabela h' q' = Inr nova \<and> ler_refs h' nova = Inr refs
                    \<and> length h \<le> nova \<and> (\<forall>a \<in> set refs. length h \<le> a)))"
proof -
  obtain i j where oo: "origem = (i, j)" by (cases origem)
  obtain r c where dd: "destino = (r, c)" by (cases destino)
  from copiar_mem_copia [OF t] obtain h1 copia nova refs where
    cp: "copiar_mem h q = (h1, Inr copia)" and p1: "preserva (length h) h h1"
    and c1: "copia_de h1 (length h) nova refs t" and lc: "length h \<le> copia"
    and o1: "ler_tabela h1 copia = Inr nova" and cn: "copia \<notin> set refs"
    by blast
  have fim: ?thesis
    if m: "mover_mem h q origem destino = (h', res)" and p: "preserva (length h) h h'"
      and v: "case res of
            Inl e \<Rightarrow> mover t origem destino = Inl e
          | Inr q' \<Rightarrow> q' = copia \<and> ler_tabela h' copia = Inr nova
              \<and> (\<exists>t'. mover t origem destino = Inr t' \<and> copia_de h' (length h) nova refs t')"
    for h' res
  proof -
    from p have f: "length h \<le> length h'" "\<forall>a < length h. h' ! a = h ! a"
      by (simp_all add: preserva_def)
    have tq: "tabela_de h' q = Inr t" by (rule preserva_tabela_de [OF p t])
    show ?thesis
    proof (cases res)
      case (Inl e)
      with m f tq v show ?thesis by simp
    next
      case (Inr q')
      with v obtain t' where q': "q' = copia" and o: "ler_tabela h' copia = Inr nova"
        and mv: "mover t origem destino = Inr t'" and cd: "copia_de h' (length h) nova refs t'"
        by auto
      from copia_tabela_de [OF cd o] mv o lc q' Inr m f tq show ?thesis by auto
    qed
  qed
  have rd: "ler_celula h1 copia l k = celula t l k" for l k
    by (rule celula_copia [OF c1 o1])
  show ?thesis
  proof (cases "celula t r c")
    case (Inl e)
    then have "mover_mem h q origem destino = (h1, Inl e)" "mover t origem destino = Inl e"
      by (simp_all add: mover_mem_def mover_def cp oo dd rd copiar_id)
    with p1 show ?thesis by (intro fim [of h1 "Inl e"]) simp_all
  next
    case x: (Inr x)
    show ?thesis
    proof (cases "celula t i j")
      case (Inl e)
      with x have "mover_mem h q origem destino = (h1, Inl e)" "mover t origem destino = Inl e"
        by (simp_all add: mover_mem_def mover_def cp oo dd rd copiar_id)
      with p1 show ?thesis by (intro fim [of h1 "Inl e"]) simp_all
    next
      case y: (Inr y)
      show ?thesis
      proof (cases "atribuir_celula t i j x")
        case (Inl e)
        with escrever_copia [OF c1 o1 cn, of i j x]
        have "escrever_celula h1 copia i j x = Inl e" by simp
        with x y Inl have "mover_mem h q origem destino = (h1, Inl e)"
          "mover t origem destino = Inl e"
          by (simp_all add: mover_mem_def mover_def cp oo dd rd copiar_id)
        with p1 show ?thesis by (intro fim [of h1 "Inl e"]) simp_all
      next
        case t1: (Inr t1)
        with escrever_copia [OF c1 o1 cn, of i j x] obtain h2 where
          e1: "escrever_celula h1 copia i j x = Inr h2" and p2: "preserva (length h) h1 h2"
          and c2: "copia_de h2 (length h) nova refs t1" and o2: "ler_tabela h2 copia = Inr nova"
          by auto
        have p12: "preserva (length h) h h2" by (rule preserva_trans [OF p1 p2])
        show ?thesis
        proof (cases "atribuir_celula t1 r c y")
          case (Inl e)
          with escrever_copia [OF c2 o2 cn, of r c y]
          have "escrever_celula h2 copia r c y = Inl e" by simp
          with x y t1 e1 Inl have "mover_mem h q origem destino = (h2, Inl e)"
            "mover t origem destino = Inl e"
            by (simp_all add: mover_mem_def mover_def cp oo dd rd copiar_id)
          with p12 show ?thesis by (intro fim [of h2 "Inl e"]) simp_all
        next
          case t2: (Inr t2)
          with escrever_copia [OF c2 o2 cn, of r c y] obtain h3 where
            e2: "escrever_celula h2 copia r c y = Inr h3" and p3: "preserva (length h) h2 h3"
            and c3: "copia_de h3 (length h) nova refs t2" and o3: "ler_tabela h3 copia = Inr nova"
            by auto
          have p13: "preserva (length h) h h3" by (rule preserva_trans [OF p12 p3])
          from x y t1 e1 t2 e2 have "mover_mem h q origem destino = (h3, Inr copia)"
            "mover t origem destino = Inr t2"
            by (simp_all add: mover_mem_def mover_def cp oo dd rd copiar_id)
          with p13 c3 o3 show ?thesis by (intro fim [of h3 "Inr copia"]) simp_all
        qed
      qed
    qed
  qed
qed

theorem mover_mem_preserva_origem_witness:
  "mover_mem exemplo 4 (1, 1) (0, 1) =
     ([Lista_int [6, 9, 8], Lista_int [7, 1, 3], Lista_int [2, 5, 4],
       Lista_ref [0, 1, 2], Objeto_QuebraCabeca 3, Lista_ref [6, 7, 8],
       Lista_int [6, 1, 8], Lista_int [7, 9, 3], Lista_int [2, 5, 4],
       Objeto_QuebraCabeca 5], Inr 9)
   \<and> tabela_de (fst (mover_mem exemplo 4 (1, 1) (0, 1))) 4 = Inr [[6, 9, 8], [7, 1, 3], [2, 5, 4]]
   \<and> mover [[6, 9, 8], [7, 1, 3], [2, 5, 4]] (1, 1) (0, 1) = Inr [[6, 1, 8], [7, 9, 3], [2, 5, 4]]"
proof -
  have t: "tabela_de exemplo 4 = Inr [[6, 9, 8], [7, 1, 3], [2, 5, 4]]"
    by code_simp
  have m: "mover_mem exemplo 4 (1, 1) (0, 1) =
     ([Lista_int [6, 9, 8], Lista_int [7, 1, 3], Lista_int [2, 5, 4],
       Lista_ref [0, 1, 2], Objeto_QuebraCabeca 3, Lista_ref [6, 7, 8],
       Lista_int [6, 1, 8], Lista_int [7, 9, 3], Lista_int [2, 5, 4],
       Objeto_QuebraCabeca 5], Inr 9)"
    by code_simp
  have v: "mover [[6, 9, 8], [7, 1, 3], [2, 5, 4]] (1, 1) (0, 1) = Inr [[6, 1, 8], [7, 9, 3], [2, 5, 4]]"
    by code_simp
  from mover_mem_preserva_origem [OF t, of "(1, 1)" "(0, 1)"]
  have "tabela_de (fst (mover_mem exemplo 4 (1, 1) (0, 1))) 4 = Inr [[6, 9, 8], [7, 1, 3], [2, 5, 4]]"
    by auto
  with m v show ?thesis by simp
qed

section \<open>Breadth-first search returns a shortest path\<close>

lemma prof_raiz: "prof (Nodo e None a) = 0"
  by (simp add: prof_def)

lemma prof_filho: "pai c = Some n \<Longrightarrow> prof c = Suc (prof n)"
  by (cases c) (auto simp: prof_def cadeia_hd Suc_pred')

lemma corpo_largura_continua:
  assumes "corpo_largura api st = Inr st'"
  shows "\<exists>n resto acs. borda st = n # resto
           \<and> objetivo_de api (estado n) = Inr False
           \<and> acoes_de api (estado n) = Inr acs
           \<and> borda st' = resto @ novos api n (sorted_acao acs) (explorado st)
           \<and> explorado st' = explorado st \<union> chaves api acs"
proof -
  from assms obtain n resto where b: "borda st = n # resto"
    by (cases "borda st") (auto simp: corpo_largura_def)
  from assms b
  have "apos_retirar api sorted_acao n (st\<lparr>borda := resto, retirados := retirados st + 1\<rparr>) = Inr st'"
    by (simp add: corpo_largura_def)
  from apos_retirar_Inr [OF this] obtain acs where
    o: "objetivo_de api (estado n) = Inr False" and a: "acoes_de api (estado n) = Inr acs"
    and s: "st' = expandir api n (sorted_acao acs) (st\<lparr>borda := resto, retirados := retirados st + 1\<rparr>)"
    by blast
  from s have "borda st' = resto @ novos api n (sorted_acao acs) (explorado st)"
    and "explorado st' = explorado st \<union> chaves api acs"
    by (simp_all add: expandir_eq chaves_sorted)
  with b o a show ?thesis by blast
qed

lemma corpo_largura_termina:
  assumes "corpo_largura api st = Inl (Caminho p, stf)" and "borda st \<noteq> []"
  shows "objetivo_de api (estado (hd (borda st))) = Inr True \<and> p = caminho (hd (borda st))"
proof -
  from assms(2) obtain n resto where b: "borda st = n # resto" by (cases "borda st") auto
  from assms(1) b
  have "apos_retirar api sorted_acao n (st\<lparr>borda := resto, retirados := retirados st + 1\<rparr>)
          = Inl (Caminho p, stf)"
    by (simp add: corpo_largura_def)
  from apos_retirar_Inl [OF this] b show ?thesis by auto
qed

lemma novos_todas_chaves:
  "k \<in> chaves api acs \<Longrightarrow> k \<notin> E \<Longrightarrow> k \<in> chave_nodo api ` set (novos api n acs E)"
proof (induction acs arbitrary: E)
  case Nil
  then show ?case by (simp add: chaves_def)
next
  case (Cons x acs)
  obtain s a where x: "x = (s, a)" by (cases x)
  show ?case
  proof (cases "k = str_de api s")
    case True
    with Cons.prems(2) show ?thesis by (simp add: x chave_nodo_def)
  next
    case False
    with Cons.prems(1) have k: "k \<in> chaves api acs" by (auto simp: chaves_def x)
    from False Cons.prems(2) have "k \<notin> insert (str_de api s) E" by simp
    from Cons.IH [OF k this] Cons.IH [OF k Cons.prems(2)] show ?thesis
      by (auto simp: x)
  qed
qed

lemma alcancaveis_fechado:
  assumes "\<forall>s \<in> A. sucessores api s \<subseteq> A" and "ini \<in> A"
  shows "alcancaveis api ini m \<subseteq> A"
  using assms by (induction m) auto

lemma inv_largura_passo:
  assumes fe: "fechado api S" and inj: "inj_on (str_de api) S"
    and i: "inv_largura api S ini C st" and c: "corpo_largura api st = Inr st'"
  shows "inv_largura api S ini (insert (estado (hd (borda st))) C) st'"
proof -
  from corpo_largura_continua [OF c] obtain n resto acs where
    b: "borda st = n # resto" and o: "objetivo_de api (estado n) = Inr False"
    and a: "acoes_de api (estado n) = Inr acs"
    and b': "borda st' = resto @ novos api n (sorted_acao acs) (explorado st)"
    and e': "explorado st' = explorado st \<union> chaves api acs"
    by blast
  define E where "E = explorado st"
  define nv where "nv = novos api n (sorted_acao acs) E"
  define C' where "C' = insert (estado n) C"
  define D where "D = prof n"
  define A where "A = C' \<union> estado ` set (resto @ nv)"
  note b'' = b' [folded E_def, folded nv_def]
  from i have cS: "C \<subseteq> S" and bS: "estado ` set (n # resto) \<subseteq> S"
    and eq: "E = str_de api ` (C \<union> estado ` set (n # resto))"
    and k1: "\<forall>s \<in> C. objetivo_de api s \<noteq> Inr True"
    and k2: "\<forall>s \<in> C. sucessores api s \<subseteq> C \<union> estado ` set (n # resto)"
    and k3: "ini \<in> C \<union> estado ` set (n # resto)"
    and k4: "sorted (map prof (n # resto))"
    and k4b: "\<forall>m \<in> set (n # resto). prof m \<le> Suc D"
    and k5: "\<forall>m s. s \<in> alcancaveis api ini m \<longrightarrow>
             s \<in> C \<or> (\<exists>x \<in> set (n # resto). estado x = s \<and> prof x \<le> m)
             \<or> (\<exists>x \<in> set (n # resto). prof x < m)"
    unfolding inv_largura_def b E_def D_def by simp_all
  from bS have nS: "estado n \<in> S" by simp
  from fechado_chaves [OF fe nS a] have aS: "fst ` set acs \<subseteq> S" by simp
  have su: "sucessores api (estado n) = fst ` set acs" by (simp add: sucessores_def a)
  have rD: "\<forall>x \<in> set resto. D \<le> prof x" using k4 by (auto simp: D_def)
  have f2: "pai x = Some n \<and> estado x \<in> fst ` set acs \<and> prof x = Suc D \<and> estado x \<in> S"
    if "x \<in> set nv" for x
  proof -
    from novos_filho [OF that [unfolded nv_def]]
    have p: "pai x = Some n" and m: "(estado x, acao x) \<in> set acs"
      by (simp_all add: set_sorted_acao)
    from m have "estado x \<in> fst ` set acs" by force
    with p aS show ?thesis by (auto simp: prof_filho D_def)
  qed
  have nvk: "chave_nodo api ` set nv \<subseteq> chaves api acs"
    using novos_chave [of _ api n "sorted_acao acs" E] by (auto simp: nv_def chaves_sorted)
  have f3: "t \<in> A" if "t \<in> fst ` set acs" for t
  proof (cases "str_de api t \<in> E")
    case True
    then have "str_de api t \<in> str_de api ` (C \<union> estado ` set (n # resto))"
      unfolding eq .
    then obtain u where u: "u \<in> C \<union> estado ` set (n # resto)" and k: "str_de api t = str_de api u"
      by (rule imageE)
    from u cS bS have "u \<in> S" by auto
    moreover from that aS have "t \<in> S" by auto
    ultimately have "t = u" using inj k by (auto dest: inj_onD)
    with u show ?thesis by (auto simp: A_def C'_def)
  next
    case False
    from that have "str_de api t \<in> chaves api (sorted_acao acs)"
      by (auto simp: chaves_def set_sorted_acao)
    from novos_todas_chaves [OF this False, of n] obtain x where
      x: "x \<in> set nv" and k: "chave_nodo api x = str_de api t"
      by (auto simp: nv_def)
    from f2 [OF x] have "estado x \<in> S" by simp
    moreover from that aS have "t \<in> S" by auto
    ultimately have "estado x = t" using inj k by (auto simp: chave_nodo_def dest: inj_onD)
    with x show ?thesis by (auto simp: A_def)
  qed
  have p1: "C' \<subseteq> S" "estado ` set (resto @ nv) \<subseteq> S"
    using cS bS nS f2 by (auto simp: C'_def)
  have p2: "E \<union> chaves api acs = str_de api ` (C' \<union> estado ` set (resto @ nv))"
  proof
    show "E \<union> chaves api acs \<subseteq> str_de api ` (C' \<union> estado ` set (resto @ nv))"
    proof
      fix k assume k: "k \<in> E \<union> chaves api acs"
      show "k \<in> str_de api ` (C' \<union> estado ` set (resto @ nv))"
      proof (cases "k \<in> E")
        case True
        then show ?thesis unfolding eq C'_def by auto
      next
        case False
        with k have "k \<in> chaves api acs" by simp
        then obtain t where "t \<in> fst ` set acs" "k = str_de api t" by (auto simp: chaves_def)
        with f3 [of t] show ?thesis by (auto simp: A_def)
      qed
    qed
  next
    have 1: "str_de api (estado x) \<in> chaves api acs" if "x \<in> set nv" for x
      using nvk that by (auto simp: chave_nodo_def)
    show "str_de api ` (C' \<union> estado ` set (resto @ nv)) \<subseteq> E \<union> chaves api acs"
    proof
      fix k assume "k \<in> str_de api ` (C' \<union> estado ` set (resto @ nv))"
      then obtain u where u: "u \<in> C' \<union> estado ` set (resto @ nv)" and k: "k = str_de api u"
        by (rule imageE)
      from u consider "u \<in> C \<union> estado ` set (n # resto)" | x where "x \<in> set nv" "u = estado x"
        by (auto simp: C'_def)
      then show "k \<in> E \<union> chaves api acs"
      proof cases
        case 1
        then show ?thesis unfolding eq k by blast
      next
        case 2
        with 1 [OF 2(1)] k show ?thesis by simp
      qed
    qed
  qed
  have p3: "\<forall>s \<in> C'. objetivo_de api s \<noteq> Inr True"
    using k1 o by (simp add: C'_def)
  have p4: "\<forall>s \<in> C'. sucessores api s \<subseteq> A"
  proof
    fix s assume "s \<in> C'"
    then consider "s = estado n" | "s \<in> C" by (auto simp: C'_def)
    then show "sucessores api s \<subseteq> A"
    proof cases
      case 1
      with f3 su show ?thesis by auto
    next
      case 2
      with k2 have "sucessores api s \<subseteq> C \<union> estado ` set (n # resto)" by blast
      then show ?thesis by (auto simp: A_def C'_def)
    qed
  qed
  have p5: "ini \<in> A" using k3 by (auto simp: A_def C'_def)
  have bD: "\<forall>x \<in> set (resto @ nv). prof x \<le> Suc D"
    using k4b f2 by auto
  have p6: "sorted (map prof (resto @ nv))"
  proof -
    have "sorted (map prof resto)" using k4 by simp
    moreover have "sorted (map prof nv)"
      using f2 by (auto simp: sorted_iff_nth_mono)
    moreover have "\<forall>x \<in> set resto. \<forall>y \<in> set nv. prof x \<le> prof y"
      using k4b f2 by auto
    ultimately show ?thesis by (simp add: sorted_append)
  qed
  have p7: "\<forall>x \<in> set (resto @ nv). prof x \<le> Suc (prof (hd (resto @ nv)))"
  proof
    fix x assume x: "x \<in> set (resto @ nv)"
    then have "resto @ nv \<noteq> []" by auto
    then have "hd (resto @ nv) \<in> set (resto @ nv)" by (rule hd_in_set)
    then have "D \<le> prof (hd (resto @ nv))" using rD f2 by auto
    with bD x show "prof x \<le> Suc (prof (hd (resto @ nv)))" by fastforce
  qed
  have p8: "s \<in> C' \<or> (\<exists>x \<in> set (resto @ nv). estado x = s \<and> prof x \<le> m)
             \<or> (\<exists>x \<in> set (resto @ nv). prof x < m)"
    if r: "s \<in> alcancaveis api ini m" for m s
  proof -
    from k5 r consider (a) "s \<in> C"
      | (b) x where "x \<in> set (n # resto)" "estado x = s" "prof x \<le> m"
      | (c) x where "x \<in> set (n # resto)" "prof x < m"
      by blast
    then show ?thesis
    proof cases
      case a
      then show ?thesis by (simp add: C'_def)
    next
      case b
      then show ?thesis by (auto simp: C'_def)
    next
      case c
      show ?thesis
      proof (cases "x \<in> set resto")
        case True
        with c(2) show ?thesis by auto
      next
        case False
        with c have Dm: "D < m" by (simp add: D_def)
        show ?thesis
        proof (cases "s \<in> A")
          case True
          then consider "s \<in> C'" | y where "y \<in> set (resto @ nv)" "estado y = s"
            by (auto simp: A_def)
          then show ?thesis
          proof cases
            case 1
            then show ?thesis by simp
          next
            case 2
            with bD Dm have "prof y \<le> m" by fastforce
            with 2 show ?thesis by blast
          qed
        next
          case nA: False
          have ne: "resto @ nv \<noteq> []"
          proof
            assume "resto @ nv = []"
            then have "A = C'" by (simp add: A_def)
            with p4 p5 have "alcancaveis api ini m \<subseteq> C'"
              by (intro alcancaveis_fechado) auto
            with r nA \<open>A = C'\<close> show False by auto
          qed
          show ?thesis
          proof (cases "Suc D < m")
            case True
            from ne obtain y where "y \<in> set (resto @ nv)" by (cases "resto @ nv") auto
            with bD True have "y \<in> set (resto @ nv) \<and> prof y < m" by fastforce
            then show ?thesis by blast
          next
            case False
            with Dm have m: "m = Suc D" by simp
            from r obtain p where p: "p \<in> alcancaveis api ini D" and sp: "s \<in> sucessores api p"
              by (auto simp: m)
            from k5 p consider (pa) "p \<in> C"
              | (pb) y where "y \<in> set (n # resto)" "estado y = p" "prof y \<le> D"
              | (pc) y where "y \<in> set (n # resto)" "prof y < D"
              by blast
            then show ?thesis
            proof cases
              case pa
              with k2 sp have "s \<in> C \<union> estado ` set (n # resto)" by blast
              then have "s \<in> A" by (auto simp: A_def C'_def)
              with nA show ?thesis by simp
            next
              case pb
              show ?thesis
              proof (cases "y = n")
                case True
                with pb sp su have "s \<in> fst ` set acs" by simp
                from f3 [OF this] nA show ?thesis by simp
              next
                case False
                with pb have "y \<in> set (resto @ nv)" "prof y < m" by (simp_all add: m)
                then show ?thesis by blast
              qed
            next
              case pc
              with rD have False by (auto simp: D_def)
              then show ?thesis ..
            qed
          qed
        qed
      qed
    qed
  qed
  have "inv_largura api S ini C' st'"
    unfolding inv_largura_def b'' e' [folded E_def]
  proof (intro conjI)
    show "C' \<subseteq> S" by (rule p1(1))
    show "estado ` set (resto @ nv) \<subseteq> S" by (rule p1(2))
    show "E \<union> chaves api acs = str_de api ` (C' \<union> estado ` set (resto @ nv))" by (rule p2)
    show "\<forall>s \<in> C'. objetivo_de api s \<noteq> Inr True" by (rule p3)
    show "\<forall>s \<in> C'. sucessores api s \<subseteq> C' \<union> estado ` set (resto @ nv)"
      by (rule p4 [unfolded A_def])
    show "ini \<in> C' \<union> estado ` set (resto @ nv)" by (rule p5 [unfolded A_def])
    show "sorted (map prof (resto @ nv))" by (rule p6)
    show "\<forall>x \<in> set (resto @ nv). prof x \<le> Suc (prof (hd (resto @ nv)))" by (rule p7)
    show "\<forall>m s. s \<in> alcancaveis api ini m \<longrightarrow>
             s \<in> C' \<or> (\<exists>x \<in> set (resto @ nv). estado x = s \<and> prof x \<le> m)
             \<or> (\<exists>x \<in> set (resto @ nv). prof x < m)"
      using p8 by (intro allI impI)
  qed
  then show ?thesis by (simp add: C'_def b)
qed

lemma inv_largura_inicial:
  assumes "ini \<in> S"
  shows "inv_largura api S ini {} (variaveis_iniciais api ini)"
proof -
  have "s \<in> {} \<or> (\<exists>n \<in> set [Nodo ini None ''Z'']. estado n = s \<and> prof n \<le> m)
             \<or> (\<exists>n \<in> set [Nodo ini None ''Z'']. prof n < m)"
    if "s \<in> alcancaveis api ini m" for m s
    using that by (cases m) (simp_all add: prof_raiz)
  then show ?thesis
    using assms by (simp add: inv_largura_def variaveis_iniciais_def prof_raiz)
qed

lemma valido_alcancavel:
  "caminho_valido api ini n \<Longrightarrow> estado n \<in> alcancaveis api ini (prof n)"
proof (induction n rule: cadeia.induct)
  case (1 e a)
  then show ?case by (simp add: prof_raiz)
next
  case (2 e p a)
  from "2.prems" have v: "caminho_valido api ini p"
    and ac: "(case acoes_de api (estado p) of Inl x \<Rightarrow> False | Inr acs \<Rightarrow> (e, a) \<in> set acs)"
    by simp_all
  from ac have "e \<in> sucessores api (estado p)"
    by (force simp: sucessores_def split: sum.splits)
  moreover have "prof (Nodo e (Some p) a) = Suc (prof p)" by (simp add: prof_filho)
  ultimately show ?case using "2.IH" [OF v] by auto
qed

lemma prof_caminho: "length (caminho n) - 1 = prof n"
  by (simp add: caminho_rev_cadeia prof_def)

text \<open>
  C1. Over a set of states closed under the actions on which the key is injective, when
  \<open>buscar\<close> in mode \<open>'largura'\<close> returns a path, the path ends in a goal state, its
  number of actions (one less than its number of nodes) is the length of a path in the
  graph from the start state to that goal, and no path from the start state to any goal
  state has fewer actions.
\<close>

theorem largura_caminho_minimo:
  assumes b: "buscar combustivel api inicio ''largura'' = Some (Caminho p, st)"
    and fe: "fechado api S" and ini: "inicio \<in> S" and inj: "inj_on (str_de api) S"
  shows "objetivo_de api (estado (last p)) = Inr True
     \<and> estado (last p) \<in> alcancaveis api inicio (length p - 1)
     \<and> (\<forall>m g. g \<in> alcancaveis api inicio m \<and> objetivo_de api g = Inr True \<longrightarrow> length p - 1 \<le> m)"
proof -
  let ?I = "\<lambda>s. (\<exists>C. inv_largura api S inicio C s) \<and> inv_caminhos api inicio s"
  from b have l: "laco (corpo_largura api) combustivel (variaveis_iniciais api inicio) = Some (Caminho p, st)"
    by (simp add: buscar_laco)
  have i0: "?I (variaveis_iniciais api inicio)"
    using inv_largura_inicial [OF ini, of api] inv_caminhos_inicial [of api inicio] by blast
  have u: "um_passo api (corpo_largura api)" by (simp add: um_passo_def)
  have step: "?I s'" if "?I s" "borda s \<noteq> []" "corpo_largura api s = Inr s'" for s s'
  proof -
    from that(1) obtain C where "inv_largura api S inicio C s" by blast
    from inv_largura_passo [OF fe inj this that(3)] inv_caminhos_passo [OF u _ that(2,3)] that(1)
    show ?thesis by blast
  qed
  have "\<exists>s. ?I s \<and> ((borda s = [] \<and> Caminho p = Nenhum \<and> st = s)
          \<or> (borda s \<noteq> [] \<and> corpo_largura api s = Inl (Caminho p, st)))"
    by (rule laco_inv [where I = ?I, OF l i0]) (rule step)
  then obtain s C where il: "inv_largura api S inicio C s" and ic: "inv_caminhos api inicio s"
    and ne: "borda s \<noteq> []" and c: "corpo_largura api s = Inl (Caminho p, st)"
    by auto
  define n where "n = hd (borda s)"
  from corpo_largura_termina [OF c ne] have o: "objetivo_de api (estado n) = Inr True"
    and p: "p = caminho n" by (simp_all add: n_def)
  from ne have nb: "n \<in> set (borda s)" by (simp add: n_def)
  have lp: "length p - 1 = prof n" unfolding p by (rule prof_caminho)
  have la: "last p = n" by (simp add: p caminho_rev_cadeia last_rev cadeia_hd)
  from ic nb have "caminho_valido api inicio n" by (simp add: inv_caminhos_def)
  from valido_alcancavel [OF this] have r: "estado n \<in> alcancaveis api inicio (prof n)" .
  from il have k1: "\<forall>s \<in> C. objetivo_de api s \<noteq> Inr True"
    and k4: "sorted (map prof (borda s))"
    and k5: "\<forall>m g. g \<in> alcancaveis api inicio m \<longrightarrow>
             g \<in> C \<or> (\<exists>x \<in> set (borda s). estado x = g \<and> prof x \<le> m)
             \<or> (\<exists>x \<in> set (borda s). prof x < m)"
    by (simp_all add: inv_largura_def)
  have hd_min: "prof n \<le> prof x" if "x \<in> set (borda s)" for x
  proof -
    from ne have bs: "borda s = n # tl (borda s)" by (simp add: n_def)
    from k4 bs have "sorted (prof n # map prof (tl (borda s)))" by (metis list.simps(9))
    with that bs show ?thesis by (metis imageI list.set_map order_refl set_ConsD sorted_simps(2))
  qed
  have mn: "prof n \<le> m" if "g \<in> alcancaveis api inicio m" "objetivo_de api g = Inr True" for m g
  proof -
    from k5 that(1) k1 that(2) obtain x where "x \<in> set (borda s)" "prof x \<le> m"
      by (metis less_imp_le)
    with hd_min [of x] show ?thesis by simp
  qed
  show ?thesis unfolding lp la using o r mn by blast
qed

lemma digito_codigo:
  assumes "1 \<le> v" and "v \<le> 9"
  shows "(of_char (''0123456789'' ! nat v) :: nat) = 48 + nat v"
proof -
  from assms have "v = 1 \<or> v = 2 \<or> v = 3 \<or> v = 4 \<or> v = 5 \<or> v = 6 \<or> v = 7 \<or> v = 8 \<or> v = 9"
    by arith
  then show ?thesis by (elim disjE) simp_all
qed

lemma digito_inj: "inj_on (\<lambda>v. ''0123456789'' ! nat v) {1..9 :: int}"
proof (rule inj_onI)
  fix v w :: int
  assume v: "v \<in> {1..9}" and w: "w \<in> {1..9}"
    and e: "''0123456789'' ! nat v = ''0123456789'' ! nat w"
  from e have "(of_char (''0123456789'' ! nat v) :: nat) = of_char (''0123456789'' ! nat w)"
    by (rule arg_cong)
  moreover from v have "(of_char (''0123456789'' ! nat v) :: nat) = 48 + nat v"
    by (intro digito_codigo) simp_all
  moreover from w have "(of_char (''0123456789'' ! nat w) :: nat) = 48 + nat w"
    by (intro digito_codigo) simp_all
  ultimately have "nat v = nat w" by linarith
  with v w show "v = w" by auto
qed

lemma str_int_digito: "1 \<le> v \<Longrightarrow> v \<le> 9 \<Longrightarrow> str_int v = [''0123456789'' ! nat v]"
  by (simp add: str_int_def)

lemma tabuleiros_str_inj: "inj_on str (tabuleiros {1..9})"
proof (rule inj_onI)
  fix t u assume t: "t \<in> tabuleiros {1..9}" and u: "u \<in> tabuleiros {1..9}" and s: "str t = str u"
  from t obtain a b c d e f g h i where tf: "t = [[a, b, c], [d, e, f], [g, h, i]]"
    and tv: "{a, b, c, d, e, f, g, h, i} \<subseteq> {1..9}" by (rule tabuleiros_forma)
  from u obtain a' b' c' d' e' f' g' h' i' where uf: "u = [[a', b', c'], [d', e', f'], [g', h', i']]"
    and uv: "{a', b', c', d', e', f', g', h', i'} \<subseteq> {1..9}" by (rule tabuleiros_forma)
  let ?xs = "[a, b, c, d, e, f, g, h, i]"
  let ?ys = "[a', b', c', d', e', f', g', h', i']"
  from tv have st: "str t = map (\<lambda>v. ''0123456789'' ! nat v) ?xs"
    by (simp add: str_def tf str_int_digito)
  from uv have su: "str u = map (\<lambda>v. ''0123456789'' ! nat v) ?ys"
    by (simp add: str_def uf str_int_digito)
  from tv uv have "set ?xs \<union> set ?ys \<subseteq> {1..9}" by simp
  with digito_inj have "inj_on (\<lambda>v. ''0123456789'' ! nat v) (set ?xs \<union> set ?ys)"
    by (rule inj_on_subset)
  from inj_on_map_eq_map [OF this] s st su have "?xs = ?ys" by simp
  then show "t = u" by (simp add: tf uf)
qed

theorem largura_caminho_minimo_witness:
  "map_option fst (buscar 10 QuebraCabeca estado_inicial ''largura'') =
     Some (Caminho
       [Nodo [[6, 9, 8], [7, 1, 3], [2, 5, 4]] None ''Z'',
        Nodo [[6, 1, 8], [7, 9, 3], [2, 5, 4]]
          (Some (Nodo [[6, 9, 8], [7, 1, 3], [2, 5, 4]] None ''Z'')) ''2 Baixo'',
        Nodo [[6, 1, 8], [7, 5, 3], [2, 9, 4]]
          (Some (Nodo [[6, 1, 8], [7, 9, 3], [2, 5, 4]]
            (Some (Nodo [[6, 9, 8], [7, 1, 3], [2, 5, 4]] None ''Z'')) ''2 Baixo'')) ''2 Baixo''])
   \<and> [[6, 1, 8], [7, 5, 3], [2, 9, 4]] \<in> alcancaveis QuebraCabeca estado_inicial 2
   \<and> \<not> (\<exists>g. g \<in> alcancaveis QuebraCabeca estado_inicial 1 \<and> objetivo_de QuebraCabeca g = Inr True)
   \<and> \<not> (\<exists>g. g \<in> alcancaveis QuebraCabeca estado_inicial 0 \<and> objetivo_de QuebraCabeca g = Inr True)"
proof -
  let ?p = "[Nodo [[6, 9, 8], [7, 1, 3], [2, 5, 4]] None ''Z'',
        Nodo [[6, 1, 8], [7, 9, 3], [2, 5, 4]]
          (Some (Nodo [[6, 9, 8], [7, 1, 3], [2, 5, 4]] None ''Z'')) ''2 Baixo'',
        Nodo [[6, 1, 8], [7, 5, 3], [2, 9, 4]]
          (Some (Nodo [[6, 1, 8], [7, 9, 3], [2, 5, 4]]
            (Some (Nodo [[6, 9, 8], [7, 1, 3], [2, 5, 4]] None ''Z'')) ''2 Baixo'')) ''2 Baixo'']
        :: tabela nodo list"
  have r: "map_option fst (buscar 10 QuebraCabeca estado_inicial ''largura'') = Some (Caminho ?p)"
    by code_simp
  then obtain st where b: "buscar 10 QuebraCabeca estado_inicial ''largura'' = Some (Caminho ?p, st)"
    by auto
  have inj: "inj_on (str_de QuebraCabeca) (tabuleiros {1..9})"
    using tabuleiros_str_inj by (simp add: QuebraCabeca_def)
  from largura_caminho_minimo [OF b tabuleiros_fechado estado_inicial_tabuleiro inj]
  have a: "estado (last ?p) \<in> alcancaveis QuebraCabeca estado_inicial (length ?p - 1)"
    and m: "\<forall>m g. g \<in> alcancaveis QuebraCabeca estado_inicial m \<and> objetivo_de QuebraCabeca g = Inr True
              \<longrightarrow> length ?p - 1 \<le> m"
    by blast+
  from a have a2: "[[6, 1, 8], [7, 5, 3], [2, 9, 4]] \<in> alcancaveis QuebraCabeca estado_inicial 2"
    by (simp add: numeral_2_eq_2 del: alcancaveis.simps)
  have n1: "\<not> (\<exists>g. g \<in> alcancaveis QuebraCabeca estado_inicial 1 \<and> objetivo_de QuebraCabeca g = Inr True)"
  proof
    assume "\<exists>g. g \<in> alcancaveis QuebraCabeca estado_inicial 1 \<and> objetivo_de QuebraCabeca g = Inr True"
    with m have "length ?p - 1 \<le> 1" by blast
    then show False by simp
  qed
  have n0: "\<not> (\<exists>g. g \<in> alcancaveis QuebraCabeca estado_inicial 0 \<and> objetivo_de QuebraCabeca g = Inr True)"
  proof
    assume "\<exists>g. g \<in> alcancaveis QuebraCabeca estado_inicial 0 \<and> objetivo_de QuebraCabeca g = Inr True"
    with m have "length ?p - 1 \<le> 0" by blast
    then show False by simp
  qed
  from r a2 n1 n0 show ?thesis by (intro conjI)
qed

section \<open>The order of the children\<close>

lemma novos_rotulos_desc:
  "sorted_wrt (\<lambda>x y. y \<le> x) (map snd xs) \<Longrightarrow>
     sorted_wrt (\<lambda>x y. y \<le> x) (map acao (novos api n xs E))"
proof (induction xs arbitrary: E)
  case Nil
  show ?case by simp
next
  case (Cons x xs)
  obtain s a where x: "x = (s, a)" by (cases x)
  from Cons.prems have tl: "sorted_wrt (\<lambda>x y. y \<le> x) (map snd xs)"
    and hd: "\<forall>b \<in> snd ` set xs. b \<le> a" by (auto simp: x)
  have le: "acao c \<le> a" if "c \<in> set (novos api n xs E')" for c E'
  proof -
    from novos_filho [OF that] have "(estado c, acao c) \<in> set xs" by simp
    then have "acao c \<in> snd ` set xs" by force
    with hd show ?thesis by blast
  qed
  show ?case
    using Cons.IH [OF tl, of E] Cons.IH [OF tl, of "insert (str_de api s) E"] le
    by (auto simp: x)
qed

lemma novos_rotulos_asc:
  "sorted (map snd xs) \<Longrightarrow> sorted (map acao (novos api n xs E))"
proof (induction xs arbitrary: E)
  case Nil
  show ?case by simp
next
  case (Cons x xs)
  obtain s a where x: "x = (s, a)" by (cases x)
  from Cons.prems have tl: "sorted (map snd xs)"
    and hd: "\<forall>b \<in> snd ` set xs. a \<le> b" by (auto simp: x)
  have le: "a \<le> acao c" if "c \<in> set (novos api n xs E')" for c E'
  proof -
    from novos_filho [OF that] have "(estado c, acao c) \<in> set xs" by simp
    then have "acao c \<in> snd ` set xs" by force
    with hd show ?thesis by blast
  qed
  show ?case
    using Cons.IH [OF tl, of E] Cons.IH [OF tl, of "insert (str_de api s) E"] le
    by (auto simp: x)
qed

lemma desc_last_menor:
  "sorted_wrt (\<lambda>x y. y \<le> x) ys \<Longrightarrow> y \<in> set ys \<Longrightarrow> last ys \<le> (y :: 'a :: order)"
  by (induction ys) (auto split: if_splits)

lemma asc_hd_menor:
  "sorted ys \<Longrightarrow> y \<in> set ys \<Longrightarrow> hd ys \<le> (y :: 'a :: linorder)"
  by (induction ys) auto

lemma rotulos_sorted_acao: "sorted (map snd (sorted_acao acs))"
  by (simp add: sorted_acao_def)

lemma rotulos_sorted_acao_reverse:
  "sorted_wrt (\<lambda>x y. y \<le> x) (map snd (sorted_acao_reverse acs))"
proof -
  have "sorted (map snd (sort_key snd (rev acs)))" by simp
  then show ?thesis
    by (simp add: sorted_acao_reverse_def rev_map [symmetric] sorted_wrt_rev)
qed

lemma novos_chaves_distintas:
  "distinct (map (\<lambda>sa. str_de api (fst sa)) (filter (\<lambda>sa. str_de api (fst sa) \<notin> E) xs)) \<Longrightarrow>
     novos api n xs E = map (filho n) (filter (\<lambda>sa. str_de api (fst sa) \<notin> E) xs)"
proof (induction xs arbitrary: E)
  case Nil
  show ?case by simp
next
  case (Cons x xs)
  obtain s a where x: "x = (s, a)" by (cases x)
  show ?case
  proof (cases "str_de api s \<in> E")
    case True
    with Cons.prems have "distinct (map (\<lambda>sa. str_de api (fst sa)) (filter (\<lambda>sa. str_de api (fst sa) \<notin> E) xs))"
      by (simp add: x)
    from Cons.IH [OF this] True show ?thesis by (simp add: x)
  next
    case False
    with Cons.prems have d: "distinct (map (\<lambda>sa. str_de api (fst sa)) (filter (\<lambda>sa. str_de api (fst sa) \<notin> E) xs))"
      and nk: "str_de api s \<notin> (\<lambda>sa. str_de api (fst sa)) ` set (filter (\<lambda>sa. str_de api (fst sa) \<notin> E) xs)"
      by (simp_all add: x)
    have f: "filter (\<lambda>sa. str_de api (fst sa) \<notin> insert (str_de api s) E) xs
         = filter (\<lambda>sa. str_de api (fst sa) \<notin> E) xs"
    proof (rule filter_cong [OF refl])
      fix sa assume "sa \<in> set xs"
      with nk show "(str_de api (fst sa) \<notin> insert (str_de api s) E) = (str_de api (fst sa) \<notin> E)"
        by force
    qed
    from d have d': "distinct (map (\<lambda>sa. str_de api (fst sa))
        (filter (\<lambda>sa. str_de api (fst sa) \<notin> insert (str_de api s) E) xs))"
      by (simp only: f)
    have "novos api n (x # xs) E = filho n (s, a) # novos api n xs (insert (str_de api s) E)"
      using False by (simp add: x filho_def)
    also have "\<dots> = filho n (s, a) # map (filho n) (filter (\<lambda>sa. str_de api (fst sa) \<notin> E) xs)"
      by (simp only: Cons.IH [OF d'] f)
    finally show ?thesis using False by (simp add: x)
  qed
qed

lemma distinct_chaves_sorted:
  "distinct (map f (filter P (sorted_acao acs))) = distinct (map f (filter P acs))"
  "distinct (map f (filter P (sorted_acao_reverse acs))) = distinct (map f (filter P acs))"
proof -
  have "mset (map f (filter P (sorted_acao acs))) = mset (map f (filter P acs))"
    by (simp add: sorted_acao_def)
  then show "distinct (map f (filter P (sorted_acao acs))) = distinct (map f (filter P acs))"
    by (rule mset_eq_imp_distinct_iff)
  have "mset (map f (filter P (sorted_acao_reverse acs))) = mset (map f (filter P acs))"
    by (simp add: sorted_acao_reverse_def)
  then show "distinct (map f (filter P (sorted_acao_reverse acs))) = distinct (map f (filter P acs))"
    by (rule mset_eq_imp_distinct_iff)
qed

lemma novos_mesmos:
  assumes "distinct (map (\<lambda>sa. str_de api (fst sa)) (filter (\<lambda>sa. str_de api (fst sa) \<notin> E) acs))"
  shows "set (novos api n (sorted_acao_reverse acs) E) = filho n ` {sa \<in> set acs. str_de api (fst sa) \<notin> E}"
    and "set (novos api n (sorted_acao acs) E) = filho n ` {sa \<in> set acs. str_de api (fst sa) \<notin> E}"
proof -
  have "novos api n (sorted_acao_reverse acs) E
      = map (filho n) (filter (\<lambda>sa. str_de api (fst sa) \<notin> E) (sorted_acao_reverse acs))"
    by (rule novos_chaves_distintas) (simp add: distinct_chaves_sorted assms)
  then show "set (novos api n (sorted_acao_reverse acs) E) = filho n ` {sa \<in> set acs. str_de api (fst sa) \<notin> E}"
    by (simp add: set_sorted_acao_reverse)
  have "novos api n (sorted_acao acs) E
      = map (filho n) (filter (\<lambda>sa. str_de api (fst sa) \<notin> E) (sorted_acao acs))"
    by (rule novos_chaves_distintas) (simp add: distinct_chaves_sorted assms)
  then show "set (novos api n (sorted_acao acs) E) = filho n ` {sa \<in> set acs. str_de api (fst sa) \<notin> E}"
    by (simp add: set_sorted_acao)
qed

lemma novos_last_menor:
  assumes "c \<in> set (novos api n (sorted_acao_reverse acs) E)"
  shows "acao (last (novos api n (sorted_acao_reverse acs) E)) \<le> acao c"
proof -
  let ?nv = "novos api n (sorted_acao_reverse acs) E"
  have s: "sorted_wrt (\<lambda>x y. y \<le> x) (map acao ?nv)"
    by (rule novos_rotulos_desc [OF rotulos_sorted_acao_reverse])
  from assms have ne: "?nv \<noteq> []" by auto
  from assms have "acao c \<in> set (map acao ?nv)" by simp
  from desc_last_menor [OF s this] ne show ?thesis by (simp add: last_map)
qed

lemma novos_hd_menor:
  assumes "c \<in> set (novos api n (sorted_acao acs) E)"
  shows "acao (hd (novos api n (sorted_acao acs) E)) \<le> acao c"
proof -
  let ?nv = "novos api n (sorted_acao acs) E"
  have s: "sorted (map acao ?nv)"
    by (rule novos_rotulos_asc [OF rotulos_sorted_acao])
  from assms have ne: "?nv \<noteq> []" by auto
  from assms have "acao c \<in> set (map acao ?nv)" by simp
  from asc_hd_menor [OF s this] ne show ?thesis by (simp add: hd_map)
qed

lemma acoes_direcoes_filtro:
  assumes t: "t \<in> tabuleiros V"
  shows "acoes_direcoes t ij ds cm =
     Inr (cm @ map (\<lambda>d. ((ij, snd d), fst d)) (filter (\<lambda>d. na_tabela (snd d) \<and> cel t (snd d) = 9) ds))"
proof (induction ds arbitrary: cm)
  case Nil
  show ?case by simp
next
  case (Cons d ds)
  obtain rot l c where d: "d = (rot, (l, c))" by (cases d) auto
  show ?case
  proof (cases "l \<ge> 0 \<and> c \<ge> 0 \<and> l < tamanho \<and> c < tamanho")
    case False
    then have "acoes_direcoes t ij (d # ds) cm = acoes_direcoes t ij ds cm"
      by (simp only: d acoes_direcoes.simps if_False)
    moreover from False have "\<not> na_tabela (l, c)" by (auto simp: na_tabela_def tamanho_def)
    ultimately show ?thesis by (simp add: Cons.IH d)
  next
    case True
    then have n: "na_tabela (l, c)" by (simp add: na_tabela_def tamanho_def)
    from t have lt: "length t = 3" by (simp add: tabuleiros_def)
    from True have nl: "nat l < 3" by (auto simp: tamanho_def)
    from tabuleiros_linha [OF t nl] have ll: "length (t ! nat l) = 3" by simp
    have i1: "item t l = Inr (t ! nat l)"
      using True lt by (simp add: item_dentro tamanho_def)
    have i2: "item (t ! nat l) c = Inr (t ! nat l ! nat c)"
      using True ll by (simp add: item_dentro tamanho_def)
    have e: "acoes_direcoes t ij (d # ds) cm =
        (if t ! nat l ! nat c = 9 then acoes_direcoes t ij ds (cm @ [((ij, (l, c)), rot)])
         else acoes_direcoes t ij ds cm)"
      using True by (simp only: d acoes_direcoes.simps if_True i1 i2 sum.case simp_thms)
    show ?thesis
      unfolding e using n by (cases "t ! nat l ! nat c = 9") (simp_all add: Cons.IH d cel_def)
  qed
qed

lemma acoes_celulas_filtro:
  assumes t: "t \<in> tabuleiros V"
  shows "acoes_celulas t ijs cm =
     Inr (cm @ map (\<lambda>x. ((fst x, snd (snd x)), fst (snd x)))
        (filter (\<lambda>x. na_tabela (snd (snd x)) \<and> cel t (snd (snd x)) = 9)
           (concat (map (\<lambda>ij. map (Pair ij) (direcoes (fst ij) (snd ij))) ijs))))"
proof (induction ijs arbitrary: cm)
  case Nil
  show ?case by simp
next
  case (Cons p ijs)
  obtain i j where p: "p = (i, j)" by (cases p)
  show ?case
    by (simp add: p acoes_direcoes_filtro [OF t] Cons.IH filter_map o_def)
qed

lemma acoes_escolhidos:
  assumes "t \<in> tabuleiros V"
  shows "acoes t = Inr (escolhidos t)"
  by (simp only: acoes_def acoes_celulas_filtro [OF assms] escolhidos_def candidatos_def append_Nil)

lemma candidatos_distintos: "distinct (map (\<lambda>x. (fst x, snd (snd x))) candidatos)"
  by code_simp

lemma candidatos_origem: "\<forall>x \<in> set candidatos. na_tabela (fst x)"
  by code_simp

lemma escolhidos_props:
  "distinct (map fst (escolhidos t))"
  "\<forall>m \<in> set (escolhidos t). na_tabela (fst (fst m)) \<and> na_tabela (snd (fst m)) \<and> cel t (snd (fst m)) = 9"
proof -
  have "map fst (escolhidos t) = map (\<lambda>x. (fst x, snd (snd x)))
      (filter (\<lambda>x. na_tabela (snd (snd x)) \<and> cel t (snd (snd x)) = 9) candidatos)"
    by (simp add: escolhidos_def o_def)
  with candidatos_distintos show "distinct (map fst (escolhidos t))"
    by (simp add: distinct_map_filter)
  show "\<forall>m \<in> set (escolhidos t). na_tabela (fst (fst m)) \<and> na_tabela (snd (fst m)) \<and> cel t (snd (fst m)) = 9"
    using candidatos_origem by (auto simp: escolhidos_def)
qed

lemma cel_atribuir:
  assumes t: "t \<in> tabuleiros V" and d: "na_tabela (r, c)" and p: "na_tabela p"
  shows "cel (t[nat r := (t ! nat r)[nat c := v]]) p = (if p = (r, c) then v else cel t p)"
proof -
  obtain l k where pp: "p = (l, k)" by (cases p)
  from d p have b: "0 \<le> r" "r < 3" "0 \<le> c" "c < 3" "0 \<le> l" "l < 3" "0 \<le> k" "k < 3"
    by (simp_all add: na_tabela_def pp)
  from t have lt: "length t = 3" by (simp add: tabuleiros_def)
  from b have nr: "nat r < 3" by auto
  from tabuleiros_linha [OF t nr] have lr: "length (t ! nat r) = 3" by simp
  show ?thesis
  proof (cases "l = r")
    case True
    show ?thesis
    proof (cases "k = c")
      case True
      with \<open>l = r\<close> b lt lr show ?thesis by (simp add: cel_def pp)
    next
      case False
      with b have "nat k \<noteq> nat c" by auto
      with \<open>l = r\<close> False b lt lr show ?thesis by (simp add: cel_def pp)
    qed
  next
    case False
    with b have "nat l \<noteq> nat r" by auto
    with False show ?thesis by (simp add: cel_def pp)
  qed
qed

lemma mover_celulas:
  assumes t: "t \<in> tabuleiros V" and o: "na_tabela origem" and d: "na_tabela destino"
    and m: "mover t origem destino = Inr t'" and p: "na_tabela p"
  shows "cel t' p = (if p = destino then cel t origem else if p = origem then cel t destino else cel t p)"
proof -
  obtain i j where oo: "origem = (i, j)" by (cases origem)
  obtain r c where dd: "destino = (r, c)" by (cases destino)
  from celula_dentro [OF t d [unfolded dd]] have x: "celula t r c = Inr (cel t (r, c))"
    and xv: "cel t (r, c) \<in> V" by (simp_all add: cel_def)
  from celula_dentro [OF t o [unfolded oo]] have y: "celula t i j = Inr (cel t (i, j))"
    and yv: "cel t (i, j) \<in> V" by (simp_all add: cel_def)
  define t1 where "t1 = t[nat i := (t ! nat i)[nat j := cel t (r, c)]]"
  from atribuir_celula_dentro [OF t o [unfolded oo] xv]
  have a1: "atribuir_celula t i j (cel t (r, c)) = Inr t1" and t1: "t1 \<in> tabuleiros V"
    by (simp_all add: t1_def)
  define t2 where "t2 = t1[nat r := (t1 ! nat r)[nat c := cel t (i, j)]]"
  from atribuir_celula_dentro [OF t1 d [unfolded dd] yv]
  have a2: "atribuir_celula t1 r c (cel t (i, j)) = Inr t2"
    by (simp_all add: t2_def)
  from m have t': "t' = t2"
    by (simp add: mover_def oo dd copiar_id x y a1 a2)
  have "cel t2 p = (if p = (r, c) then cel t (i, j) else cel t1 p)"
    unfolding t2_def by (rule cel_atribuir [OF t1 d [unfolded dd] p])
  moreover have "cel t1 p = (if p = (i, j) then cel t (r, c) else cel t p)"
    unfolding t1_def by (rule cel_atribuir [OF t o [unfolded oo] p])
  ultimately show ?thesis by (simp add: t' oo dd)
qed

lemma tabuleiros_ext:
  assumes t: "t \<in> tabuleiros V" and u: "u \<in> tabuleiros V"
    and e: "\<And>p. na_tabela p \<Longrightarrow> cel t p = cel u p"
  shows "t = u"
proof -
  from t obtain a b c d e' f g h i where tf: "t = [[a, b, c], [d, e', f], [g, h, i]]"
    by (rule tabuleiros_forma)
  from u obtain a' b' c' d' e'' f' g' h' i' where uf: "u = [[a', b', c'], [d', e'', f'], [g', h', i']]"
    by (rule tabuleiros_forma)
  from e [of "(0, 0)"] e [of "(0, 1)"] e [of "(0, 2)"] e [of "(1, 0)"] e [of "(1, 1)"] e [of "(1, 2)"]
    e [of "(2, 0)"] e [of "(2, 1)"] e [of "(2, 2)"]
  show ?thesis by (simp add: tf uf cel_def na_tabela_def)
qed

lemma movimentos_iguais:
  assumes t: "t \<in> tabuleiros V"
    and o1: "na_tabela o1" and d1: "na_tabela d1" and c1: "cel t d1 = 9"
    and o2: "na_tabela o2" and d2: "na_tabela d2" and c2: "cel t d2 = 9"
    and m1: "mover t o1 d1 = Inr t'" and m2: "mover t o2 d2 = Inr t'"
    and ne: "t' \<noteq> t"
  shows "o1 = o2 \<and> d1 = d2"
proof -
  from mover_dentro [OF t o1 d1] m1 have t': "t' \<in> tabuleiros V" by auto
  note f1 = mover_celulas [OF t o1 d1 m1]
  note f2 = mover_celulas [OF t o2 d2 m2]
  have n1: "cel t o1 \<noteq> 9"
  proof
    assume "cel t o1 = 9"
    with c1 f1 have "cel t' p = cel t p" if "na_tabela p" for p
      using that by auto
    then have "t' = t" by (intro tabuleiros_ext [OF t' t])
    with ne show False by simp
  qed
  have n2: "cel t o2 \<noteq> 9"
  proof
    assume "cel t o2 = 9"
    with c2 f2 have "cel t' p = cel t p" if "na_tabela p" for p
      using that by auto
    then have "t' = t" by (intro tabuleiros_ext [OF t' t])
    with ne show False by simp
  qed
  from n1 c1 have od1: "o1 \<noteq> d1" by auto
  from n2 c2 have od2: "o2 \<noteq> d2" by auto
  from f1 [OF o1] od1 c1 have a: "cel t' o1 = 9" by simp
  from f1 [OF d1] have b: "cel t' d1 = cel t o1" by simp
  have oo: "o1 = o2"
  proof (rule ccontr)
    assume "o1 \<noteq> o2"
    with f2 [OF o1] have "cel t' o1 = (if o1 = d2 then cel t o2 else cel t o1)" by simp
    with a n1 n2 show False by (auto split: if_splits)
  qed
  have "d1 = d2"
  proof (rule ccontr)
    assume "d1 \<noteq> d2"
    with f2 [OF d1] od1 oo have "cel t' d1 = cel t d1" by simp
    with b c1 n1 show False by simp
  qed
  with oo show ?thesis by simp
qed

lemma chamar_resultados:
  "chamar t ms = Inr rs \<Longrightarrow>
     list_all2 (\<lambda>m r. mover t (fst (fst m)) (snd (fst m)) = Inr (fst r) \<and> snd r = snd m) ms rs"
proof (induction ms arbitrary: rs)
  case Nil
  then show ?case by simp
next
  case (Cons m ms)
  obtain origem destino rot where m: "m = ((origem, destino), rot)" by (cases m) auto
  from Cons.prems obtain t' rs' where "mover t origem destino = Inr t'" "chamar t ms = Inr rs'"
    "rs = (t', rot) # rs'"
    by (auto simp: m split: sum.splits)
  with Cons.IH [of rs'] show ?case by (simp add: m)
qed

lemma distintos_por_relacao:
  assumes "list_all2 R ms rs" and "distinct (map f ms)"
    and "\<And>m1 r1 m2 r2. m1 \<in> set ms \<Longrightarrow> m2 \<in> set ms \<Longrightarrow> R m1 r1 \<Longrightarrow> R m2 r2 \<Longrightarrow>
           k r1 = k r2 \<Longrightarrow> k r1 \<notin> E \<Longrightarrow> f m1 = f m2"
  shows "distinct (map k (filter (\<lambda>r. k r \<notin> E) rs))"
  using assms
proof (induction rule: list_all2_induct)
  case Nil
  show ?case by simp
next
  case (Cons m ms r rs)
  have ih: "distinct (map k (filter (\<lambda>r. k r \<notin> E) rs))"
  proof (rule Cons.IH)
    show "distinct (map f ms)" using Cons.prems(1) by simp
  next
    fix m1 r1 m2 r2
    assume "m1 \<in> set ms" "m2 \<in> set ms" "R m1 r1" "R m2 r2" "k r1 = k r2" "k r1 \<notin> E"
    then show "f m1 = f m2" by (intro Cons.prems(2) [of m1 m2 r1 r2]) simp_all
  qed
  show ?case
  proof (cases "k r \<in> E")
    case True
    with ih show ?thesis by simp
  next
    case False
    have "k r \<notin> k ` set (filter (\<lambda>r. k r \<notin> E) rs)"
    proof
      assume "k r \<in> k ` set (filter (\<lambda>r. k r \<notin> E) rs)"
      then obtain r2 where r2: "r2 \<in> set rs" and kk: "k r = k r2" by auto
      from r2 obtain n where n: "n < length rs" "rs ! n = r2" by (auto simp: in_set_conv_nth)
      from Cons.hyps(2) have ln: "length ms = length rs" by (rule list_all2_lengthD)
      from Cons.hyps(2) n(1) have "R (ms ! n) (rs ! n)" by (simp add: list_all2_nthD2)
      with n ln have m2: "ms ! n \<in> set ms" "R (ms ! n) r2" by simp_all
      define m2 where "m2 = ms ! n"
      note m2 = m2 [folded m2_def]
      from Cons.prems(2) [of m m2 r r2] m2 Cons.hyps(1) kk False have "f m = f m2" by simp
      with m2(1) Cons.prems(1) show False by force
    qed
    with False ih show ?thesis by simp
  qed
qed

lemma QuebraCabeca_chaves_distintas:
  assumes t: "t \<in> tabuleiros {1..9}" and a: "acoes_de QuebraCabeca t = Inr acs"
    and e: "str_de QuebraCabeca t \<in> E"
  shows "distinct (map (\<lambda>sa. str_de QuebraCabeca (fst sa))
           (filter (\<lambda>sa. str_de QuebraCabeca (fst sa) \<notin> E) acs))"
proof -
  from a have c: "chamar t (escolhidos t) = Inr acs"
    by (simp add: QuebraCabeca_def acoes_escolhidos [OF t])
  let ?R = "\<lambda>m r. mover t (fst (fst m)) (snd (fst m)) = Inr (fst r) \<and> snd r = snd m"
  have "distinct (map (\<lambda>sa. str (fst sa)) (filter (\<lambda>sa. str (fst sa) \<notin> E) acs))"
  proof (rule distintos_por_relacao [where R = ?R and f = fst, OF chamar_resultados [OF c] escolhidos_props(1)])
    fix m1 r1 m2 r2
    assume s1: "m1 \<in> set (escolhidos t)" and s2: "m2 \<in> set (escolhidos t)"
      and r1: "?R m1 r1" and r2: "?R m2 r2"
      and k: "str (fst r1) = str (fst r2)" and u: "str (fst r1) \<notin> E"
    from escolhidos_props(2) s1 have p1: "na_tabela (fst (fst m1))" "na_tabela (snd (fst m1))"
      "cel t (snd (fst m1)) = 9" by auto
    from escolhidos_props(2) s2 have p2: "na_tabela (fst (fst m2))" "na_tabela (snd (fst m2))"
      "cel t (snd (fst m2)) = 9" by auto
    from r1 have v1: "mover t (fst (fst m1)) (snd (fst m1)) = Inr (fst r1)" by simp
    from r2 have v2: "mover t (fst (fst m2)) (snd (fst m2)) = Inr (fst r2)" by simp
    from mover_dentro [OF t p1(1,2)] v1 have t1: "fst r1 \<in> tabuleiros {1..9}" by auto
    from mover_dentro [OF t p2(1,2)] v2 have t2: "fst r2 \<in> tabuleiros {1..9}" by auto
    from tabuleiros_str_inj k t1 t2 have eq: "fst r1 = fst r2" by (rule inj_onD)
    from u e have ne: "fst r1 \<noteq> t" by (auto simp: QuebraCabeca_def)
    from movimentos_iguais [OF t p1 p2 v1 v2 [folded eq] ne]
    show "fst m1 = fst m2" by (simp add: prod_eq_iff)
  qed
  then show ?thesis by (simp add: QuebraCabeca_def)
qed

text \<open>
  C5, as the code has it. When an iteration of the depth-first loop expands a node and
  the frontier does not shrink (at least one child was appended), the children appended
  are those of the actions taken in descending order of label, the next iteration takes
  the last of them from the back of the frontier, and that node is a child of the
  expanded node, built for one of its actions, with a key that was not explored, whose
  label is the lowest among the children appended. When the actions of the node that
  lead to unexplored keys lead to pairwise distinct keys, this label is the lowest among
  all actions that lead to an unexplored key, and it is the label of the first child
  that the breadth-first loop appends for the same node and the same set of keys. On the
  boards of the puzzle with cells from 1 to 9 the condition holds whenever the key of
  the expanded board is explored, as it is for every node of the frontier.
\<close>

theorem profundidade_acao_preferida:
  assumes c: "corpo_profundidade api st = Inr st'"
    and novo: "length (borda st) \<le> length (borda st')"
  shows "\<exists>acs. acoes_de api (estado (last (borda st))) = Inr acs
     \<and> borda st' = butlast (borda st) @ novos api (last (borda st)) (sorted_acao_reverse acs) (explorado st)
     \<and> novos api (last (borda st)) (sorted_acao_reverse acs) (explorado st) \<noteq> []
     \<and> corpo_profundidade api st' =
          apos_retirar api sorted_acao_reverse (last (borda st'))
            (st'\<lparr>borda := butlast (borda st'), retirados := retirados st' + 1\<rparr>)
     \<and> pai (last (borda st')) = Some (last (borda st))
     \<and> (estado (last (borda st')), acao (last (borda st'))) \<in> set acs
     \<and> str_de api (estado (last (borda st'))) \<notin> explorado st
     \<and> (\<forall>c \<in> set (novos api (last (borda st)) (sorted_acao_reverse acs) (explorado st)).
           acao (last (borda st')) \<le> acao c)
     \<and> (distinct (map (\<lambda>sa. str_de api (fst sa))
            (filter (\<lambda>sa. str_de api (fst sa) \<notin> explorado st) acs)) \<longrightarrow>
           (\<forall>sa \<in> set acs. str_de api (fst sa) \<notin> explorado st \<longrightarrow> acao (last (borda st')) \<le> snd sa)
           \<and> acao (last (borda st'))
               = acao (hd (novos api (last (borda st)) (sorted_acao acs) (explorado st))))"
proof -
  define n where "n = last (borda st)"
  define E where "E = explorado st"
  from c have ne: "borda st \<noteq> []"
    by (auto simp: corpo_profundidade_def split: if_splits)
  with c have "apos_retirar api sorted_acao_reverse n
      (st\<lparr>borda := butlast (borda st), retirados := retirados st + 1\<rparr>) = Inr st'"
    by (simp add: corpo_profundidade_def n_def)
  from apos_retirar_Inr [OF this] obtain acs where
    a: "acoes_de api (estado n) = Inr acs"
    and s: "st' = expandir api n (sorted_acao_reverse acs)
                    (st\<lparr>borda := butlast (borda st), retirados := retirados st + 1\<rparr>)"
    by blast
  define filhos where "filhos = novos api n (sorted_acao_reverse acs) E"
  have b': "borda st' = butlast (borda st) @ filhos"
    by (simp add: s expandir_eq filhos_def E_def)
  have fne: "filhos \<noteq> []"
  proof
    assume "filhos = []"
    with b' have "length (borda st') = length (borda st) - 1" by simp
    moreover from ne have "0 < length (borda st)" by simp
    ultimately show False using novo by linarith
  qed
  then have ne': "borda st' \<noteq> []" and l: "last (borda st') = last filhos"
    by (simp_all add: b')
  have lf: "last filhos \<in> set filhos" using fne by simp
  from novos_filho [OF lf [unfolded filhos_def]]
  have p: "pai (last filhos) = Some n"
    and m: "(estado (last filhos), acao (last filhos)) \<in> set acs"
    and k: "str_de api (estado (last filhos)) \<notin> E"
    by (simp_all add: filhos_def set_sorted_acao_reverse)
  have nx: "corpo_profundidade api st' =
          apos_retirar api sorted_acao_reverse (last (borda st'))
            (st'\<lparr>borda := butlast (borda st'), retirados := retirados st' + 1\<rparr>)"
    using ne' by (simp add: corpo_profundidade_def)
  have mn: "\<forall>c \<in> set filhos. acao (last filhos) \<le> acao c"
    unfolding filhos_def using novos_last_menor by blast
  have ds: "(\<forall>sa \<in> set acs. str_de api (fst sa) \<notin> E \<longrightarrow> acao (last filhos) \<le> snd sa)
           \<and> acao (last filhos) = acao (hd (novos api n (sorted_acao acs) E))"
    if d: "distinct (map (\<lambda>sa. str_de api (fst sa)) (filter (\<lambda>sa. str_de api (fst sa) \<notin> E) acs))"
  proof -
    let ?U = "{sa \<in> set acs. str_de api (fst sa) \<notin> E}"
    from novos_mesmos [OF d, of n] have sd: "set filhos = filho n ` ?U"
      and sa: "set (novos api n (sorted_acao acs) E) = filho n ` ?U"
      by (simp_all add: filhos_def)
    have 1: "acao (last filhos) \<le> snd sa" if "sa \<in> set acs" "str_de api (fst sa) \<notin> E" for sa
    proof -
      from that have "filho n sa \<in> set filhos" by (simp add: sd)
      with mn have "acao (last filhos) \<le> acao (filho n sa)" by blast
      then show ?thesis by (simp add: filho_def)
    qed
    from sd sa have "set (novos api n (sorted_acao acs) E) = set filhos" by simp
    with fne have ane: "novos api n (sorted_acao acs) E \<noteq> []" by (metis set_empty)
    then have "hd (novos api n (sorted_acao acs) E) \<in> set filhos" by (simp add: sd sa [symmetric])
    with mn have 2: "acao (last filhos) \<le> acao (hd (novos api n (sorted_acao acs) E))" by blast
    from lf have "last filhos \<in> set (novos api n (sorted_acao acs) E)" by (simp add: sd sa)
    from novos_hd_menor [OF this] 2
    have "acao (last filhos) = acao (hd (novos api n (sorted_acao acs) E))" by simp
    with 1 show ?thesis by blast
  qed
  show ?thesis
    using a b' fne nx p m k mn ds
    unfolding l n_def [symmetric] E_def [symmetric] filhos_def
    by (intro exI [of _ acs]) blast
qed

text \<open>
  The claim without the condition on the keys fails for a state whose actions lead twice
  to the same state: from state 0 the depth-first loop appends the children of the
  actions \<open>c\<close> and \<open>b\<close> and skips \<open>a\<close>, whose key the action \<open>c\<close> has just added; the next
  node taken is the child of \<open>b\<close>, although \<open>a\<close> is the lowest label that leads to an
  unexplored key, and the breadth-first loop appends the child of \<open>a\<close> first.
\<close>

theorem profundidade_acao_preferida_counterexample:
  "corpo_profundidade estado_repetido (variaveis_iniciais estado_repetido 0) =
     Inr \<lparr>borda = [Nodo 1 (Some (Nodo 0 None ''Z'')) ''c'', Nodo 2 (Some (Nodo 0 None ''Z'')) ''b''],
          explorado = {''0'', ''1'', ''2''}, criados = 4, retirados = 1\<rparr>
   \<and> acoes_de estado_repetido 0 = Inr [(1, ''a''), (2, ''b''), (1, ''c'')]
   \<and> str_de estado_repetido 1 \<notin> explorado (variaveis_iniciais estado_repetido 0)
   \<and> ''a'' < ''b''
   \<and> corpo_largura estado_repetido (variaveis_iniciais estado_repetido 0) =
     Inr \<lparr>borda = [Nodo 1 (Some (Nodo 0 None ''Z'')) ''a'', Nodo 2 (Some (Nodo 0 None ''Z'')) ''b''],
          explorado = {''0'', ''1'', ''2''}, criados = 4, retirados = 1\<rparr>"
  by code_simp

theorem profundidade_acao_preferida_witness:
  "corpo_profundidade QuebraCabeca (variaveis_iniciais QuebraCabeca estado_inicial) =
     Inr \<lparr>borda =
         [Nodo [[6, 8, 9], [7, 1, 3], [2, 5, 4]] (Some (Nodo [[6, 9, 8], [7, 1, 3], [2, 5, 4]] None ''Z'')) ''4 Direita'',
          Nodo [[9, 6, 8], [7, 1, 3], [2, 5, 4]] (Some (Nodo [[6, 9, 8], [7, 1, 3], [2, 5, 4]] None ''Z'')) ''3 Esquerda'',
          Nodo [[6, 1, 8], [7, 9, 3], [2, 5, 4]] (Some (Nodo [[6, 9, 8], [7, 1, 3], [2, 5, 4]] None ''Z'')) ''2 Baixo''],
       explorado = {''698713254'', ''689713254'', ''968713254'', ''618793254''},
       criados = 4, retirados = 1\<rparr>
   \<and> acoes_de QuebraCabeca estado_inicial =
       Inr [([[9, 6, 8], [7, 1, 3], [2, 5, 4]], ''3 Esquerda''),
            ([[6, 8, 9], [7, 1, 3], [2, 5, 4]], ''4 Direita''),
            ([[6, 1, 8], [7, 9, 3], [2, 5, 4]], ''2 Baixo'')]
   \<and> distinct (map (\<lambda>sa. str_de QuebraCabeca (fst sa))
        (filter (\<lambda>sa. str_de QuebraCabeca (fst sa) \<notin> {''698713254''})
           [([[9, 6, 8], [7, 1, 3], [2, 5, 4]], ''3 Esquerda''),
            ([[6, 8, 9], [7, 1, 3], [2, 5, 4]], ''4 Direita''),
            ([[6, 1, 8], [7, 9, 3], [2, 5, 4]], ''2 Baixo'')]))
   \<and> ''2 Baixo'' \<le> ''3 Esquerda'' \<and> ''2 Baixo'' \<le> ''4 Direita''
   \<and> acao (hd (novos QuebraCabeca (Nodo estado_inicial None ''Z'')
        (sorted_acao [([[9, 6, 8], [7, 1, 3], [2, 5, 4]], ''3 Esquerda''),
            ([[6, 8, 9], [7, 1, 3], [2, 5, 4]], ''4 Direita''),
            ([[6, 1, 8], [7, 9, 3], [2, 5, 4]], ''2 Baixo'')]) {''698713254''})) = ''2 Baixo''"
proof -
  let ?n1 = "Nodo [[6, 8, 9], [7, 1, 3], [2, 5, 4]] (Some (Nodo [[6, 9, 8], [7, 1, 3], [2, 5, 4]] None ''Z'')) ''4 Direita''
    :: tabela nodo"
  let ?n2 = "Nodo [[9, 6, 8], [7, 1, 3], [2, 5, 4]] (Some (Nodo [[6, 9, 8], [7, 1, 3], [2, 5, 4]] None ''Z'')) ''3 Esquerda''
    :: tabela nodo"
  let ?n3 = "Nodo [[6, 1, 8], [7, 9, 3], [2, 5, 4]] (Some (Nodo [[6, 9, 8], [7, 1, 3], [2, 5, 4]] None ''Z'')) ''2 Baixo''
    :: tabela nodo"
  let ?acs = "[([[9, 6, 8], [7, 1, 3], [2, 5, 4]], ''3 Esquerda''),
            ([[6, 8, 9], [7, 1, 3], [2, 5, 4]], ''4 Direita''),
            ([[6, 1, 8], [7, 9, 3], [2, 5, 4]], ''2 Baixo'')] :: (tabela \<times> string) list"
  let ?st = "variaveis_iniciais QuebraCabeca estado_inicial"
  let ?st' = "\<lparr>borda = [?n1, ?n2, ?n3],
       explorado = {''698713254'', ''689713254'', ''968713254'', ''618793254''},
       criados = 4, retirados = 1\<rparr>"
  have c: "corpo_profundidade QuebraCabeca ?st = Inr ?st'"
    by code_simp
  have n: "length (borda ?st) \<le> length (borda ?st')"
    by (simp add: variaveis_iniciais_def)
  have a: "acoes_de QuebraCabeca estado_inicial = Inr ?acs"
    by code_simp
  have e: "explorado ?st = {''698713254''}"
    by code_simp
  have l: "last (borda ?st) = Nodo estado_inicial None ''Z''"
    by (simp add: variaveis_iniciais_def)
  have "str_de QuebraCabeca estado_inicial \<in> {''698713254''}"
    by code_simp
  from QuebraCabeca_chaves_distintas [OF estado_inicial_tabuleiro a this]
  have d: "distinct (map (\<lambda>sa. str_de QuebraCabeca (fst sa))
        (filter (\<lambda>sa. str_de QuebraCabeca (fst sa) \<notin> {''698713254''}) ?acs))" .
  from profundidade_acao_preferida [OF c n] obtain acs where
    a': "acoes_de QuebraCabeca (estado (last (borda ?st))) = Inr acs"
    and m: "distinct (map (\<lambda>sa. str_de QuebraCabeca (fst sa))
            (filter (\<lambda>sa. str_de QuebraCabeca (fst sa) \<notin> explorado ?st) acs)) \<longrightarrow>
           (\<forall>sa \<in> set acs. str_de QuebraCabeca (fst sa) \<notin> explorado ?st \<longrightarrow> acao (last (borda ?st')) \<le> snd sa)
           \<and> acao (last (borda ?st'))
               = acao (hd (novos QuebraCabeca (last (borda ?st)) (sorted_acao acs) (explorado ?st)))"
    by blast
  from a' a have acs: "acs = ?acs" by (simp add: l)
  from m d have m1: "\<forall>sa \<in> set ?acs. str_de QuebraCabeca (fst sa) \<notin> {''698713254''} \<longrightarrow> ''2 Baixo'' \<le> snd sa"
    and m2: "''2 Baixo'' = acao (hd (novos QuebraCabeca (Nodo estado_inicial None ''Z'') (sorted_acao ?acs) {''698713254''}))"
    unfolding acs e l by simp_all
  have k1: "str_de QuebraCabeca [[9, 6, 8], [7, 1, 3], [2, 5, 4]] \<notin> {''698713254''}"
    and k2: "str_de QuebraCabeca [[6, 8, 9], [7, 1, 3], [2, 5, 4]] \<notin> {''698713254''}"
    by code_simp+
  from m1 k1 k2 have "''2 Baixo'' \<le> ''3 Esquerda''" "''2 Baixo'' \<le> ''4 Direita''" by auto
  with c a d m2 show ?thesis by simp
qed

end
